(* ===== verification/Core_Types.thy ===== *)
theory Core_Types
  imports Prelude
begin

text \<open>
  The crate-wide vocabulary: src/src/error.rs, the constants of src/src/consts.rs, the newtype and
  the data types of src/src/types.rs, and the identifier check and status mapping of
  src/src/util.rs.

  The text of an error message is that of the source, except that a string printed with \<^verbatim>\<open>Debug\<close>
  (the offending identifier or namespace), whose escapes depend on Unicode tables, is left out of
  it. No code path branches on a message.
\<close>

section \<open>Errors\<close>

text \<open>The status codes of gRPC, and the \<^verbatim>\<open>std::io::ErrorKind\<close>s the code distinguishes.\<close>

datatype code =
  Code_Ok | Code_Cancelled | Code_Unknown | Code_InvalidArgument | Code_DeadlineExceeded
| Code_NotFound | Code_AlreadyExists | Code_PermissionDenied | Code_ResourceExhausted
| Code_FailedPrecondition | Code_Aborted | Code_OutOfRange | Code_Unimplemented | Code_Internal
| Code_Unavailable | Code_DataLoss | Code_Unauthenticated

record status =
  status_code :: code
  status_message :: string

datatype io_kind = Kind_NotFound | Kind_ConnectionRefused | Kind_InvalidInput | Kind_Other string

datatype error =
  SocketNotFound string
| ConnectionRefused string
| Transport string
| Containerd string status
| Io string io_kind
| ImageNotFound string
| ContainerAlreadyExists string
| ContainerNotFound string
| TaskAlreadyExists string
| TaskNotFound string
| TaskExited string
| SnapshotAlreadyExists string
| SnapshotNotFound string
| SnapshotNotManaged string
| StatePoisoned string
| Timeout string
| PortForward string
| InvalidArgument string
| ResourceExhausted string
| NotImplemented

type_synonym 'a result = "error + 'a"

text \<open>The message of an error, from its \<^verbatim>\<open>#[error(..)]\<close> attribute.\<close>

fun error_display :: "error \<Rightarrow> string" where
  "error_display (SocketNotFound path) = ''containerd socket not found at '' @ quoted path
     @ ''. Is containerd running? (hint: start Colima or set CONTAINERD_SOCKET)''"
| "error_display (ConnectionRefused path) =
     ''connection refused to containerd socket at '' @ quoted path @ ''. Is containerd running?''"
| "error_display (Transport _) = ''transport error''"
| "error_display (Containerd op _) = ''containerd '' @ op @ '' failed''"
| "error_display (Io ctx _) = ''io error: '' @ ctx"
| "error_display (ImageNotFound img) = ''image not found: '' @ img"
| "error_display (ContainerAlreadyExists c) = ''container already exists: '' @ c"
| "error_display (ContainerNotFound c) = ''container not found: '' @ c"
| "error_display (TaskAlreadyExists c) = ''task already exists for container: '' @ c"
| "error_display (TaskNotFound c) = ''task not found: '' @ c"
| "error_display (TaskExited m) = ''task exited before becoming ready: '' @ m"
| "error_display (SnapshotAlreadyExists n) = ''snapshot already exists: '' @ n"
| "error_display (SnapshotNotFound n) = ''snapshot not found: '' @ n"
| "error_display (SnapshotNotManaged n) =
     ''snapshot '' @ quoted n @ '' was not created by containerd-manager (missing managed label)''"
| "error_display (StatePoisoned what) = ''internal client state poisoned: '' @ what"
| "error_display (Timeout m) = ''timeout: '' @ m"
| "error_display (PortForward m) = ''port forwarding error: '' @ m"
| "error_display (InvalidArgument m) = ''invalid argument: '' @ m"
| "error_display (ResourceExhausted m) = ''resource exhausted: '' @ m"
| "error_display NotImplemented = ''not implemented''"

definition into_crate_error :: "status \<Rightarrow> string \<Rightarrow> error" where
  "into_crate_error s op = Containerd op s"

definition map_image_status :: "string \<Rightarrow> string \<Rightarrow> status \<Rightarrow> error" where
  "map_image_status op img s =
     (if status_code s = Code_NotFound then ImageNotFound img else into_crate_error s op)"

section \<open>Constants\<close>

definition DEFAULT_SNAPSHOTTER :: string where "DEFAULT_SNAPSHOTTER = ''overlayfs''"
definition DEFAULT_RUNTIME :: string where "DEFAULT_RUNTIME = ''io.containerd.runc.v2''"
definition PORT_BINDING_LABEL_PREFIX :: string where
  "PORT_BINDING_LABEL_PREFIX = ''containerd-manager.port.''"
definition BRIDGE_IP_LABEL :: string where "BRIDGE_IP_LABEL = ''containerd-manager.bridge.ip''"
definition NETWORK_MODE_LABEL :: string where
  "NETWORK_MODE_LABEL = ''containerd-manager.network.mode''"
definition NAME_LABEL :: string where "NAME_LABEL = ''containerd-manager.name''"
definition BRIDGE_NAME :: string where "BRIDGE_NAME = ''cni0''"
definition BRIDGE_GATEWAY :: string where "BRIDGE_GATEWAY = ''10.88.0.1''"
definition CONTAINER_SUBNET_PREFIX :: string where "CONTAINER_SUBNET_PREFIX = ''10.88.1''"
definition OCI_SPEC_VERSION :: string where "OCI_SPEC_VERSION = ''1.0.2''"
definition OCI_ROOTFS_PATH :: string where "OCI_ROOTFS_PATH = ''rootfs''"
definition OCI_SPEC_TYPE_URL :: string where
  "OCI_SPEC_TYPE_URL = ''types.containerd.io/opencontainers/runtime-spec/1/Spec''"
definition HOOK_PATH :: string where
  "HOOK_PATH = ''PATH=/usr/local/sbin:/usr/local/bin:/usr/sbin:/usr/bin:/sbin:/bin''"

text \<open>A \<^verbatim>\<open>Duration\<close> and an \<^verbatim>\<open>Instant\<close> are numbers of nanoseconds.\<close>

type_synonym duration = nat
type_synonym instant = nat

definition from_millis :: "nat \<Rightarrow> duration" where "from_millis n = n * 10 ^ 6"
definition from_secs :: "nat \<Rightarrow> duration" where "from_secs n = n * 10 ^ 9"

text \<open>
  How a \<^verbatim>\<open>Duration\<close> prints with \<^verbatim>\<open>Debug\<close>: in the largest unit that is not zero, with as many decimals as
  there are digits that count. The micro sign is two bytes.
\<close>

definition show_decimal :: "nat \<Rightarrow> nat \<Rightarrow> nat \<Rightarrow> string" where
  "show_decimal width n frac =
     show_nat n @ (if frac = 0 then []
       else CHR ''.'' # rev (dropWhile (\<lambda>c. c = CHR ''0'') (rev (pad_left width (CHR ''0'') (show_nat frac)))))"

definition show_duration :: "duration \<Rightarrow> string" where
  "show_duration d =
     (let secs = d div 10 ^ 9; nanos = d mod 10 ^ 9
      in if 0 < secs then show_decimal 9 secs nanos @ ''s''
         else if 10 ^ 6 \<le> nanos then show_decimal 6 (nanos div 10 ^ 6) (nanos mod 10 ^ 6) @ ''ms''
         else if 10 ^ 3 \<le> nanos then show_decimal 3 (nanos div 10 ^ 3) (nanos mod 10 ^ 3) @ [CHR 0xC2, CHR 0xB5] @ ''s''
         else show_decimal 0 nanos 0 @ ''ns'')"

definition SNAPSHOT_OP_STOP_TIMEOUT :: duration where
  "SNAPSHOT_OP_STOP_TIMEOUT = from_secs 10"

lemmas label_consts = PORT_BINDING_LABEL_PREFIX_def BRIDGE_IP_LABEL_def NETWORK_MODE_LABEL_def NAME_LABEL_def
lemmas duration_defs = from_millis_def from_secs_def

section \<open>Identifiers\<close>

definition MAX_IDENTIFIER_LEN :: nat where "MAX_IDENTIFIER_LEN = 76"

definition is_alnum :: "char \<Rightarrow> bool" where
  "is_alnum b \<longleftrightarrow> byte_in b 48 57 \<or> byte_in b 65 90 \<or> byte_in b 97 122"

definition is_sep :: "char \<Rightarrow> bool" where
  "is_sep b \<longleftrightarrow> b = CHR ''.'' \<or> b = CHR ''_'' \<or> b = CHR ''-''"

fun check_inner :: "bool \<Rightarrow> bytes \<Rightarrow> unit result" where
  "check_inner prev_sep [] = Inr ()"
| "check_inner prev_sep (b # bs) =
     (if is_alnum b then check_inner False bs
      else if is_sep b then
        (if prev_sep then Inl (InvalidArgument ''identifier contains consecutive separators'')
         else check_inner True bs)
      else Inl (InvalidArgument ''identifier contains invalid character''))"

definition validate_identifier :: "string \<Rightarrow> unit result" where
  "validate_identifier ident =
     (if ident = [] then Inl (InvalidArgument ''identifier must not be empty'')
      else if length ident > MAX_IDENTIFIER_LEN then Inl (InvalidArgument (''identifier exceeds '' @ show_nat MAX_IDENTIFIER_LEN @ '' characters''))
      else if \<not> is_alnum (ident ! 0) \<or> \<not> is_alnum (ident ! (length ident - 1))
      then Inl (InvalidArgument ''identifier must start and end with an alphanumeric'')
      else if length ident \<le> 2 then Inr ()
      else check_inner False (drop 1 (take (length ident - 1) ident)))"

text \<open>\<^verbatim>\<open>ContainerId\<close> wraps a string; \<^verbatim>\<open>from_existing\<close> is its only public constructor.\<close>

datatype container_id = ContainerId (as_str: string)

definition from_existing :: "string \<Rightarrow> container_id result" where
  "from_existing i = result_bind (validate_identifier i) (\<lambda>_. Inr (ContainerId i))"

text \<open>
  containerd's identifier grammar: alphanumeric segments joined by single separators.
\<close>

definition segment :: "string \<Rightarrow> bool" where
  "segment xs \<longleftrightarrow> xs \<noteq> [] \<and> list_all is_alnum xs"

inductive ident :: "string \<Rightarrow> bool" where
  single: "segment xs \<Longrightarrow> ident xs"
| joined: "ident s \<Longrightarrow> is_sep c \<Longrightarrow> segment xs \<Longrightarrow> ident (s @ c # xs)"

text \<open>The scan as a predicate: the alphabet, and no two separators in a row.\<close>

fun scan_ok :: "bool \<Rightarrow> bytes \<Rightarrow> bool" where
  "scan_ok p [] = True"
| "scan_ok p (b # bs) = (if is_alnum b then scan_ok False bs else is_sep b \<and> \<not> p \<and> scan_ok True bs)"

lemma check_inner_scan: "check_inner p bs = Inr () \<longleftrightarrow> scan_ok p bs"
  by (induction p bs rule: check_inner.induct) auto

lemma sep_not_alnum: "is_sep c \<Longrightarrow> \<not> is_alnum c"
  by (auto simp: is_sep_def is_alnum_def)

lemma scan_ok_append:
  "scan_ok p (xs @ ys) \<longleftrightarrow> scan_ok p xs \<and> scan_ok (if xs = [] then p else \<not> is_alnum (last xs)) ys"
  by (induction p xs rule: scan_ok.induct) auto

lemma scan_ok_alnum: "list_all is_alnum xs \<Longrightarrow> scan_ok p xs"
  by (induction xs arbitrary: p) auto

lemma scan_ok_char: "scan_ok p xs \<Longrightarrow> c \<in> set xs \<Longrightarrow> is_alnum c \<or> is_sep c"
  by (induction p xs rule: scan_ok.induct) (auto split: if_splits)

lemma segment_last: "segment xs \<Longrightarrow> is_alnum (last xs)" and segment_hd: "segment xs \<Longrightarrow> is_alnum (hd xs)"
  by (auto simp: segment_def list_all_iff)

lemma identifier_shape:
  "ident s \<Longrightarrow> s \<noteq> [] \<and> is_alnum (hd s) \<and> is_alnum (last s) \<and> scan_ok False s"
proof (induction rule: ident.induct)
  case (single xs)
  then show ?case
    using segment_hd segment_last by (auto simp: segment_def scan_ok_alnum)
next
  case (joined s c xs)
  then show ?case
    using segment_last sep_not_alnum
    by (auto simp: scan_ok_append segment_def scan_ok_alnum hd_append)
qed

lemma shape_identifier:
  "s \<noteq> [] \<Longrightarrow> is_alnum (hd s) \<Longrightarrow> is_alnum (last s) \<Longrightarrow> scan_ok False s \<Longrightarrow> ident s"
proof (induction s rule: measure_induct_rule [of length])
  case (less s)
  define xs where "xs = rev (takeWhile is_alnum (rev s))"
  define pre where "pre = rev (dropWhile is_alnum (rev s))"
  have s: "s = pre @ xs"
    by (simp add: xs_def pre_def flip: rev_append)
  have "rev s \<noteq> []" "is_alnum (hd (rev s))"
    using less.prems by (auto simp: hd_rev)
  then have seg: "segment xs"
    by (auto simp: segment_def xs_def list_all_iff takeWhile_eq_Nil_iff dest: set_takeWhileD)
  show ?case
  proof (cases "pre = []")
    case True
    with s seg show ?thesis by (simp add: ident.single)
  next
    case False
    then obtain q c where pre: "pre = q @ [c]" by (metis rev_exhaust)
    have "\<not> is_alnum c"
      using hd_dropWhile [of is_alnum "rev s"] False pre unfolding pre_def
      by (metis append_is_Nil_conv hd_rev last_snoc rev_rev_ident rev_is_Nil_conv)
    moreover from this have "is_sep c" "q \<noteq> []"
      using less.prems s pre by (auto simp: scan_ok_append)
    moreover from calculation have "is_alnum (last q)" "is_alnum (hd q)" "scan_ok False q"
      using less.prems s pre by (auto simp: scan_ok_append split: if_splits)
    ultimately have "ident q"
      using less.IH [of q] s pre by simp
    with \<open>is_sep c\<close> seg show ?thesis
      using s pre ident.joined by simp
  qed
qed

lemma validate_scan:
  "validate_identifier s = Inr () \<longleftrightarrow>
     s \<noteq> [] \<and> length s \<le> MAX_IDENTIFIER_LEN \<and> is_alnum (hd s) \<and> is_alnum (last s) \<and> scan_ok False s"
proof (cases "length s \<le> 1")
  case True
  then show ?thesis
    by (cases s) (auto simp: validate_identifier_def MAX_IDENTIFIER_LEN_def)
next
  case False
  then obtain a m z where s: "s = a # m @ [z]"
    by (cases s; cases "tl s" rule: rev_cases) auto
  then have "drop 1 (take (length s - 1) s) = m" by simp
  moreover have "m = [] \<or> \<not> length s \<le> 2" using s by (cases m) auto
  ultimately show ?thesis
    using s by (auto simp: validate_identifier_def nth_append check_inner_scan scan_ok_append)
qed

lemma validate_identifier_grammar:
  "validate_identifier s = Inr () \<longleftrightarrow> ident s \<and> length s \<le> MAX_IDENTIFIER_LEN"
  using validate_scan identifier_shape shape_identifier by blast

lemma validate_identifier_charset:
  "validate_identifier s = Inr () \<Longrightarrow> c \<in> set s \<Longrightarrow> is_alnum c \<or> is_sep c"
  using scan_ok_char validate_scan by blast

lemma validate_identifier_no_slash: "validate_identifier s = Inr () \<Longrightarrow> CHR ''/'' \<notin> set s"
  using validate_identifier_charset [of s "CHR ''/''"] by (auto simp: is_alnum_def is_sep_def)

lemma check_inner_error: "check_inner p bs = Inl e \<Longrightarrow> \<exists>m. e = InvalidArgument m"
  by (induction p bs rule: check_inner.induct) (auto split: if_splits)

lemma validate_identifier_error: "validate_identifier s = Inl e \<Longrightarrow> \<exists>m. e = InvalidArgument m"
  using check_inner_error by (auto simp: validate_identifier_def split: if_splits)

section \<open>Properties\<close>

text \<open>
  C11: \<^verbatim>\<open>ContainerId::from_existing\<close> accepts exactly containerd's identifier grammar of at most 76
  bytes (alphanumeric segments joined by single dots, underscores or dashes), keeps the string, and
  answers every other string with \<^verbatim>\<open>InvalidArgument\<close>.
\<close>

theorem from_existing_decides_grammar:
  "case from_existing s of
     Inr cid \<Rightarrow> as_str cid = s \<and> ident s \<and> length s \<le> MAX_IDENTIFIER_LEN
   | Inl e \<Rightarrow> (\<exists>m. e = InvalidArgument m) \<and> \<not> (ident s \<and> length s \<le> MAX_IDENTIFIER_LEN)"
proof (cases "validate_identifier s")
  case (Inl e)
  with validate_identifier_grammar [of s] validate_identifier_error [OF Inl] show ?thesis
    by (simp add: from_existing_def)
next
  case (Inr u)
  with validate_identifier_grammar [of s] show ?thesis by (simp add: from_existing_def)
qed

end
