(* ===== verification/Files.thy ===== *)
theory Files
  imports Core_Types
begin

text \<open>
  What the crate uses of the file system (\<^verbatim>\<open>std::fs\<close>, \<^verbatim>\<open>tokio::fs\<close>, \<^verbatim>\<open>std::path\<close>): names that refer
  to inodes, inodes that hold bytes, and a schedule of faults. Each system call takes the head of
  the schedule and fails when it is \<^term>\<open>Some (k, n)\<close>; \<open>n\<close> is the number of bytes a failing write has
  already written. With an empty schedule nothing fails. A rename moves a name and keeps the inode,
  so an open handle, which is an inode, survives it.
\<close>

section \<open>Paths\<close>

definition path_join :: "string \<Rightarrow> string \<Rightarrow> string" where
  "path_join a b =
     (if b \<noteq> [] \<and> hd b = CHR ''/'' then b
      else if a = [] \<or> last a = CHR ''/'' then a @ b
      else a @ CHR ''/'' # b)"

text \<open>
  \<^verbatim>\<open>Path::with_extension\<close> for a non-empty extension: the part of the file name after its last dot
  is replaced; a name without a dot, or with a leading dot only, is extended.
\<close>

definition with_extension :: "string \<Rightarrow> string \<Rightarrow> string" where
  "with_extension p ext =
     (case split_once (CHR ''.'') (takeWhile (\<lambda>c. c \<noteq> CHR ''/'') (rev p)) of
        Some (old, stem) \<Rightarrow> if stem = [] then p @ CHR ''.'' # ext
                           else take (length p - Suc (length old)) p @ CHR ''.'' # ext
      | None \<Rightarrow> p @ CHR ''.'' # ext)"

lemma with_extension_replace:
  assumes "CHR ''.'' \<notin> set old" "CHR ''/'' \<notin> set old" "stem \<noteq> []" "CHR ''/'' \<notin> set stem"
    and "dir = [] \<or> last dir = CHR ''/''"
  shows "with_extension (dir @ stem @ CHR ''.'' # old) ext = dir @ stem @ CHR ''.'' # ext"
proof -
  have tw: "takeWhile (\<lambda>c. c \<noteq> CHR ''/'') (rev (dir @ stem @ CHR ''.'' # old)) = rev old @ CHR ''.'' # rev stem"
  proof (cases dir rule: rev_cases)
    case Nil
    with assms(2,4) show ?thesis by (auto simp: takeWhile_eq_all_conv)
  next
    case (snoc ys y)
    have "takeWhile (\<lambda>c. c \<noteq> CHR ''/'') ((rev old @ CHR ''.'' # rev stem) @ CHR ''/'' # rev ys)
        = rev old @ CHR ''.'' # rev stem"
      using assms(2,4) by (subst takeWhile_append2) auto
    with snoc assms(5) show ?thesis by simp
  qed
  have "split_once (CHR ''.'') (rev old @ CHR ''.'' # rev stem) = Some (rev old, rev stem)"
    using assms(1) by simp
  with tw assms(3) show ?thesis
    by (simp add: with_extension_def)
qed

section \<open>Files\<close>

record fs =
  fs_names :: "string \<rightharpoonup> nat"
  fs_data :: "nat \<Rightarrow> bytes"
  fs_next :: nat
  fs_faults :: "(io_kind \<times> nat) option list"

text \<open>Every name refers to an inode that has been handed out, so a new inode is fresh.\<close>

definition fs_ok :: "fs \<Rightarrow> bool" where
  "fs_ok f \<longleftrightarrow> (\<forall>p i. fs_names f p = Some i \<longrightarrow> i < fs_next f) \<and> inj_on (fs_names f) (dom (fs_names f))"

definition quiet :: "fs \<Rightarrow> bool" where
  "quiet f \<longleftrightarrow> fs_faults f = []"

definition syscall :: "fs \<Rightarrow> (io_kind \<times> nat) option \<times> fs" where
  "syscall f = (case fs_faults f of [] \<Rightarrow> (None, f) | x # xs \<Rightarrow> (x, f\<lparr>fs_faults := xs\<rparr>))"

definition content :: "fs \<Rightarrow> string \<Rightarrow> bytes option" where
  "content f p = map_option (fs_data f) (fs_names f p)"

definition fs_open :: "string \<Rightarrow> fs \<Rightarrow> (io_kind + nat) \<times> fs" where
  "fs_open p f = (case syscall f of
      (Some (k, _), f') \<Rightarrow> (Inl k, f')
    | (None, f') \<Rightarrow> (case fs_names f' p of None \<Rightarrow> (Inl Kind_NotFound, f') | Some i \<Rightarrow> (Inr i, f')))"

definition handle_len :: "nat \<Rightarrow> fs \<Rightarrow> (io_kind + nat) \<times> fs" where
  "handle_len i f = (case syscall f of
      (Some (k, _), f') \<Rightarrow> (Inl k, f') | (None, f') \<Rightarrow> (Inr (length (fs_data f' i)), f'))"

definition handle_seek :: "nat \<Rightarrow> fs \<Rightarrow> (io_kind + unit) \<times> fs" where
  "handle_seek i f = (case syscall f of (Some (k, _), f') \<Rightarrow> (Inl k, f') | (None, f') \<Rightarrow> (Inr (), f'))"

text \<open>\<^verbatim>\<open>take(want).read_to_end\<close> and \<^verbatim>\<open>read_to_end\<close> from an offset.\<close>

definition handle_read :: "nat \<Rightarrow> nat \<Rightarrow> nat option \<Rightarrow> fs \<Rightarrow> (io_kind + bytes) \<times> fs" where
  "handle_read i pos want f = (case syscall f of
      (Some (k, _), f') \<Rightarrow> (Inl k, f')
    | (None, f') \<Rightarrow> (Inr (case want of None \<Rightarrow> drop pos (fs_data f' i)
                                    | Some n \<Rightarrow> take n (drop pos (fs_data f' i))), f'))"

definition fs_metadata :: "string \<Rightarrow> fs \<Rightarrow> (io_kind + nat) \<times> fs" where
  "fs_metadata p f = (case syscall f of
      (Some (k, _), f') \<Rightarrow> (Inl k, f')
    | (None, f') \<Rightarrow> (case content f' p of None \<Rightarrow> (Inl Kind_NotFound, f') | Some b \<Rightarrow> (Inr (length b), f')))"

definition fs_read :: "string \<Rightarrow> fs \<Rightarrow> (io_kind + bytes) \<times> fs" where
  "fs_read p f = (case syscall f of
      (Some (k, _), f') \<Rightarrow> (Inl k, f')
    | (None, f') \<Rightarrow> (case content f' p of None \<Rightarrow> (Inl Kind_NotFound, f') | Some b \<Rightarrow> (Inr b, f')))"

text \<open>\<^verbatim>\<open>try_exists(..).unwrap_or(false)\<close> and \<^verbatim>\<open>Path::exists\<close>: an error counts as absent.\<close>

definition fs_exists :: "string \<Rightarrow> fs \<Rightarrow> bool \<times> fs" where
  "fs_exists p f = (case syscall f of (Some _, f') \<Rightarrow> (False, f') | (None, f') \<Rightarrow> (fs_names f' p \<noteq> None, f'))"

definition fs_remove_file :: "string \<Rightarrow> fs \<Rightarrow> (io_kind + unit) \<times> fs" where
  "fs_remove_file p f = (case syscall f of
      (Some (k, _), f') \<Rightarrow> (Inl k, f')
    | (None, f') \<Rightarrow> (if fs_names f' p = None then (Inl Kind_NotFound, f')
                     else (Inr (), f'\<lparr>fs_names := (fs_names f')(p := None)\<rparr>)))"

definition fs_rename :: "string \<Rightarrow> string \<Rightarrow> fs \<Rightarrow> (io_kind + unit) \<times> fs" where
  "fs_rename src dst f = (case syscall f of
      (Some (k, _), f') \<Rightarrow> (Inl k, f')
    | (None, f') \<Rightarrow> (case fs_names f' src of
          None \<Rightarrow> (Inl Kind_NotFound, f')
        | Some i \<Rightarrow> (Inr (), f'\<lparr>fs_names := (fs_names f')(src := None, dst := Some i)\<rparr>)))"

definition create_empty :: "string \<Rightarrow> fs \<Rightarrow> fs" where
  "create_empty p f =
     f\<lparr>fs_names := (fs_names f)(p \<mapsto> fs_next f), fs_data := (fs_data f)(fs_next f := []),
       fs_next := Suc (fs_next f)\<rparr>"

text \<open>\<^verbatim>\<open>OpenOptions::new().create(true).append(true).open\<close>, then \<^verbatim>\<open>write_all\<close> on the handle.\<close>

definition fs_open_append :: "string \<Rightarrow> fs \<Rightarrow> (io_kind + nat) \<times> fs" where
  "fs_open_append p f = (case syscall f of
      (Some (k, _), f') \<Rightarrow> (Inl k, f')
    | (None, f') \<Rightarrow> (case fs_names f' p of
          Some i \<Rightarrow> (Inr i, f') | None \<Rightarrow> (Inr (fs_next f'), create_empty p f')))"

definition handle_append :: "nat \<Rightarrow> bytes \<Rightarrow> fs \<Rightarrow> (io_kind + unit) \<times> fs" where
  "handle_append i b f = (case syscall f of
      (Some (k, n), f') \<Rightarrow> (Inl k, f'\<lparr>fs_data := (fs_data f')(i := fs_data f' i @ take n b)\<rparr>)
    | (None, f') \<Rightarrow> (Inr (), f'\<lparr>fs_data := (fs_data f')(i := fs_data f' i @ b)\<rparr>))"

text \<open>\<^verbatim>\<open>std::fs::write\<close>: create or truncate, then write.\<close>

definition fs_write :: "string \<Rightarrow> bytes \<Rightarrow> fs \<Rightarrow> (io_kind + unit) \<times> fs" where
  "fs_write p b f = (case syscall f of
      (Some (k, _), f') \<Rightarrow> (Inl k, f')
    | (None, f') \<Rightarrow> (let g = (if fs_names f' p = None then create_empty p f' else f')
        in (Inr (), g\<lparr>fs_data := (fs_data g)(the (fs_names g p) := b)\<rparr>)))"

definition below :: "string \<Rightarrow> string \<Rightarrow> bool" where
  "below dir p \<longleftrightarrow> p = dir \<or> prefix (dir @ ''/'') p"

definition fs_remove_dir_all :: "string \<Rightarrow> fs \<Rightarrow> (io_kind + unit) \<times> fs" where
  "fs_remove_dir_all dir f = (case syscall f of
      (Some (k, _), f') \<Rightarrow> (Inl k, f')
    | (None, f') \<Rightarrow> (Inr (), f'\<lparr>fs_names := (\<lambda>p. if below dir p then None else fs_names f' p)\<rparr>))"

definition fs_create_dir_all :: "string \<Rightarrow> fs \<Rightarrow> (io_kind + unit) \<times> fs" where
  "fs_create_dir_all dir f =
     (case syscall f of (Some (k, _), f') \<Rightarrow> (Inl k, f') | (None, f') \<Rightarrow> (Inr (), f'))"

lemmas fs_defs = fs_open_def handle_len_def handle_seek_def handle_read_def fs_metadata_def fs_read_def
  fs_exists_def fs_remove_file_def fs_rename_def fs_open_append_def handle_append_def fs_write_def
  fs_remove_dir_all_def fs_create_dir_all_def

lemma syscall_quiet [simp]: "quiet f \<Longrightarrow> syscall f = (None, f)"
  by (simp add: quiet_def syscall_def)

lemma quiet_updates [simp]:
  "quiet (f\<lparr>fs_names := n\<rparr>) = quiet f" "quiet (f\<lparr>fs_data := d\<rparr>) = quiet f"
  "quiet (f\<lparr>fs_next := k\<rparr>) = quiet f" "quiet (create_empty p f) = quiet f"
  by (simp_all add: quiet_def create_empty_def)

lemma fs_ok_fresh: "fs_ok f \<Longrightarrow> fs_names f p \<noteq> Some (fs_next f)"
  by (auto simp: fs_ok_def)

lemma fs_ok_inj: "fs_ok f \<Longrightarrow> fs_names f p = Some i \<Longrightarrow> fs_names f q = Some i \<Longrightarrow> p = q"
  by (auto simp: fs_ok_def inj_on_def dom_def)

lemma fs_ok_create [simp]: "fs_ok f \<Longrightarrow> fs_ok (create_empty p f)"
  by (auto simp: fs_ok_def create_empty_def inj_on_def dom_def less_Suc_eq split: if_splits) blast

lemma fs_ok_data [simp]: "fs_ok (f\<lparr>fs_data := d\<rparr>) = fs_ok f"
  by (simp add: fs_ok_def)

lemma fs_ok_forget: "fs_ok f \<Longrightarrow> fs_ok (f\<lparr>fs_names := (fs_names f)(p := None)\<rparr>)"
  by (auto simp: fs_ok_def inj_on_def dom_def split: if_splits)

lemma fs_ok_move:
  "fs_ok f \<Longrightarrow> fs_names f p = Some i \<Longrightarrow>
     fs_ok (f\<lparr>fs_names := (fs_names f)(p := None, q := Some i)\<rparr>)"
  by (auto simp: fs_ok_def inj_on_def dom_def split: if_splits)

lemma content_create [simp]:
  "fs_ok f \<Longrightarrow> content (create_empty p f) q = (if q = p then Some [] else content f q)"
  using fs_ok_fresh [of f q]
  by (cases "fs_names f q") (auto simp: content_def create_empty_def)

lemma content_append:
  "fs_ok f \<Longrightarrow> fs_names f p = Some i \<Longrightarrow>
     content (f\<lparr>fs_data := (fs_data f)(i := b)\<rparr>) q = (if q = p then Some b else content f q)"
  using fs_ok_inj [of f p i q] by (cases "fs_names f q") (auto simp: content_def)

text \<open>Every call keeps the invariant, whatever the schedule of faults.\<close>

lemma syscall_frame: "syscall f = (x, f') \<Longrightarrow> \<exists>fl. f' = f\<lparr>fs_faults := fl\<rparr>"
  by (cases "fs_faults f") (auto simp: syscall_def intro: exI [of _ "fs_faults f"])

lemma fs_ok_faults [simp]: "fs_ok (f\<lparr>fs_faults := x\<rparr>) = fs_ok f"
  by (simp add: fs_ok_def)

lemma content_faults [simp]: "content (f\<lparr>fs_faults := x\<rparr>) q = content f q"
  by (simp add: content_def)

lemma fs_ok_calls [simp]:
  assumes "fs_ok f"
  shows "fs_ok (snd (fs_open p f))" "fs_ok (snd (handle_len i f))" "fs_ok (snd (handle_seek i f))"
    "fs_ok (snd (handle_read i pos want f))" "fs_ok (snd (fs_metadata p f))" "fs_ok (snd (fs_read p f))"
    "fs_ok (snd (fs_exists p f))" "fs_ok (snd (fs_remove_file p f))" "fs_ok (snd (fs_rename p q f))"
    "fs_ok (snd (fs_open_append p f))" "fs_ok (snd (handle_append i b f))"
proof -
  obtain x fl where sc: "syscall f = (x, f\<lparr>fs_faults := fl\<rparr>)"
    using syscall_frame by (metis surj_pair)
  define g where "g = f\<lparr>fs_faults := fl\<rparr>"
  have g: "syscall f = (x, g)" "fs_ok g" using sc assms by (simp_all add: g_def)
  show "fs_ok (snd (fs_open p f))" "fs_ok (snd (handle_len i f))" "fs_ok (snd (handle_seek i f))"
    "fs_ok (snd (handle_read i pos want f))" "fs_ok (snd (fs_metadata p f))" "fs_ok (snd (fs_read p f))"
    "fs_ok (snd (fs_exists p f))" "fs_ok (snd (handle_append i b f))" "fs_ok (snd (fs_open_append p f))"
    "fs_ok (snd (fs_remove_file p f))" "fs_ok (snd (fs_rename p q f))"
    using g by (auto simp: fs_defs fs_ok_forget fs_ok_move split: option.split prod.split)
qed

end
