(* ===== verification/Log_Codec.thy ===== *)
theory Log_Codec
  imports Prelude
begin

text \<open>
  The record format of \<^verbatim>\<open>events.log\<close> (src/src/logs.rs, lines 22-270): the encoder
  \<^verbatim>\<open>encode_record_into\<close>, the one-record decoder \<^verbatim>\<open>decode_event_with_len\<close>, the resynchronisation step
  and the whole-file parser.

  The definitions keep the source's cursor arithmetic. The specification \<open>decode_all\<close> reads a byte
  list to the end and returns the entries with the bytes that are still undecided; every loop of
  the program over records is shown equal to it. The main facts are the exact round trip, that a
  cut-off record is never misread, that the verdict on a prefix is final, and hence that decoding
  in pieces and decoding at once agree (\<open>decode_all_append\<close>).
\<close>

section \<open>Model\<close>

datatype log_stream = Stdout | Stderr

text \<open>\<^verbatim>\<open>SystemTime\<close> is the signed number of nanoseconds since \<^verbatim>\<open>UNIX_EPOCH\<close>.\<close>

type_synonym system_time = int

record log_entry =
  entry_stream :: log_stream
  entry_timestamp :: system_time
  entry_data :: bytes

abbreviation space :: char where "space \<equiv> CHR '' ''"
abbreviation newline :: char where "newline \<equiv> CHR 0x0A"

definition EVENTS_ROTATE_BYTES :: nat where
  "EVENTS_ROTATE_BYTES = 10 * 1024 * 1024"

definition MAX_ROTATED_FILES :: nat where
  "MAX_ROTATED_FILES = 5"

definition MAX_RECORD_BYTES :: nat where
  "MAX_RECORD_BYTES = 16 * 1024 * 1024"

definition ROTATED_DRAIN_MAX_BYTES :: nat where
  "ROTATED_DRAIN_MAX_BYTES = 16 * 1024 * 1024"

text \<open>Milliseconds since the epoch: 0 before it, saturated at \<^verbatim>\<open>u64::MAX\<close>.\<close>

definition timestamp_ms :: "system_time \<Rightarrow> nat" where
  "timestamp_ms t = (if t < 0 then 0 else min (nat t div 10 ^ 6) (2 ^ 64 - 1))"

fun stream_char :: "log_stream \<Rightarrow> char" where
  "stream_char Stdout = CHR ''o''"
| "stream_char Stderr = CHR ''e''"

definition encode_record_into :: "bytes \<Rightarrow> system_time \<Rightarrow> log_stream \<Rightarrow> bytes \<Rightarrow> bytes" where
  "encode_record_into buf ts strm dat =
     buf @ show_nat (timestamp_ms ts) @ [space] @ [stream_char strm] @ [space]
         @ show_nat (length dat) @ [space] @ dat @ [newline]"

definition encode_event :: "log_entry \<Rightarrow> bytes" where
  "encode_event e = encode_record_into [] (entry_timestamp e) (entry_stream e) (entry_data e)"

datatype decoded = Record log_entry nat | NeedMore | Malformed

definition decode_event_with_len :: "bytes \<Rightarrow> decoded" where
  "decode_event_with_len s =
    (case position (\<lambda>b. b = space) s of None \<Rightarrow> NeedMore
     | Some space1 \<Rightarrow>
       if \<not> utf8_valid (take space1 s) then Malformed else
       (case parse_uint 64 (take space1 s) of None \<Rightarrow> Malformed
        | Some ms \<Rightarrow>
          (let after_ms = drop (space1 + 1) s in
           case after_ms of [] \<Rightarrow> NeedMore
           | c # _ \<Rightarrow>
             if length after_ms < 2 then NeedMore
             else if after_ms ! 1 \<noteq> space then Malformed
             else if c \<noteq> CHR ''o'' \<and> c \<noteq> CHR ''e'' then Malformed
             else
              (let strm = (if c = CHR ''o'' then Stdout else Stderr);
                   after_stream = drop 2 after_ms in
               case position (\<lambda>b. b = space) after_stream of None \<Rightarrow> NeedMore
               | Some space2 \<Rightarrow>
                 if \<not> utf8_valid (take space2 after_stream) then Malformed else
                 (case parse_uint 64 (take space2 after_stream) of None \<Rightarrow> Malformed
                  | Some len \<Rightarrow>
                    if len > MAX_RECORD_BYTES then Malformed else
                    (let data_abs_start = space1 + 1 + 2 + space2 + 1;
                         data_abs_end = data_abs_start + len in
                     if length s < data_abs_end + 1 then NeedMore
                     else if s ! data_abs_end \<noteq> newline then Malformed
                     else Record
                       \<lparr>entry_stream = strm, entry_timestamp = int ms * 10 ^ 6,
                        entry_data = take len (drop data_abs_start s)\<rparr>
                       (data_abs_end + 1)))))))"

definition resync_offset :: "bytes \<Rightarrow> nat option" where
  "resync_offset buf = map_option (\<lambda>i. i + 1) (position (\<lambda>b. b = newline) buf)"

section \<open>One record\<close>

lemma decode_Record_length:
  "decode_event_with_len s = Record e n \<Longrightarrow> 0 < n \<and> n \<le> length s"
  by (auto simp: decode_event_with_len_def Let_def split: option.splits list.splits if_splits)

lemma resync_offset_length: "resync_offset s = Some k \<Longrightarrow> 0 < k \<and> k \<le> length s"
  by (auto simp: resync_offset_def dest: position_Some_length)

lemma resync_offset_stable: "resync_offset s = Some k \<Longrightarrow> resync_offset (s @ t) = Some k"
  by (auto simp: resync_offset_def position_append)

text \<open>
  The decoder as a cascade of stages, each of which either stops or hands its result on. The
  stages read a prefix of the buffer only, which is why a verdict is final.
\<close>

definition decode_header :: "bytes \<Rightarrow> (nat \<times> nat) option option" where
  "decode_header s = (case position (\<lambda>b. b = space) s of None \<Rightarrow> None
     | Some i \<Rightarrow> Some (if utf8_valid (take i s)
                       then map_option (Pair i) (parse_uint 64 (take i s)) else None))"

lemma decode_header_stable: "decode_header s = Some h \<Longrightarrow> decode_header (s @ t) = Some h"
  by (auto simp: decode_header_def position_append dest: position_Some_length split: option.splits)

lemma decode_event_cascade:
  "decode_event_with_len s =
    (case decode_header s of None \<Rightarrow> NeedMore | Some None \<Rightarrow> Malformed
     | Some (Some (i, ms)) \<Rightarrow>
       (let a = drop (i + 1) s in
        if length a < 2 then NeedMore
        else if a ! 1 \<noteq> space \<or> a ! 0 \<noteq> CHR ''o'' \<and> a ! 0 \<noteq> CHR ''e'' then Malformed
        else (case decode_header (drop 2 a) of None \<Rightarrow> NeedMore | Some None \<Rightarrow> Malformed
              | Some (Some (j, len)) \<Rightarrow>
                (let p = i + 1 + 2 + j + 1 in
                 if len > MAX_RECORD_BYTES then Malformed
                 else if length s < p + len + 1 then NeedMore
                 else if s ! (p + len) \<noteq> newline then Malformed
                 else Record \<lparr>entry_stream = (if a ! 0 = CHR ''o'' then Stdout else Stderr),
                        entry_timestamp = int ms * 10 ^ 6, entry_data = take len (drop p s)\<rparr>
                      (p + len + 1)))))"
proof (cases "decode_header s")
  case None
  then show ?thesis
    by (simp add: decode_event_with_len_def decode_header_def split: option.splits)
next
  case (Some h)
  show ?thesis
  proof (cases h)
    case None
    with Some show ?thesis
      by (auto simp: decode_event_with_len_def decode_header_def split: option.splits if_splits)
  next
    case (Some im)
    obtain i ms where im: "im = (i, ms)" by (cases im)
    with \<open>decode_header s = Some h\<close> Some have first:
        "position (\<lambda>b. b = space) s = Some i" "utf8_valid (take i s)" "parse_uint 64 (take i s) = Some ms"
      by (auto simp: decode_header_def split: option.splits if_splits)
    consider (none) "drop (Suc i) s = []" | (single) c where "drop (Suc i) s = [c]"
      | (long) c d r where "drop (Suc i) s = c # d # r"
      by (cases "drop (Suc i) s"; cases "tl (drop (Suc i) s)") auto
    then show ?thesis
    proof cases
      case none
      with first \<open>decode_header s = Some h\<close> Some im show ?thesis
        by (simp add: decode_event_with_len_def Let_def)
    next
      case (single c)
      with first \<open>decode_header s = Some h\<close> Some im show ?thesis
        by (simp add: decode_event_with_len_def Let_def del: length_drop)
    next
      case long
      with first \<open>decode_header s = Some h\<close> Some im show ?thesis
        by (simp add: decode_event_with_len_def Let_def del: length_drop)
          (simp add: decode_header_def split: option.split)
    qed
  qed
qed

lemma decode_header_index: "decode_header s = Some (Some (i, n)) \<Longrightarrow> i < length s"
  by (auto simp: decode_header_def dest: position_Some_length split: option.splits if_splits)

lemma decode_NeedMore_cases:
  assumes "decode_event_with_len s \<noteq> NeedMore"
  obtains (bad_ms) "decode_header s = Some None"
  | (header) i ms c d r where "decode_header s = Some (Some (i, ms))" "drop (Suc i) s = c # d # r"
proof (cases "decode_header s")
  case None
  with assms show thesis by (simp add: decode_event_cascade)
next
  case (Some h)
  show thesis
  proof (cases h)
    case None
    with Some that(1) show thesis by simp
  next
    case (Some im)
    obtain i ms where "im = (i, ms)" by (cases im)
    with \<open>decode_header s = Some h\<close> Some have h: "decode_header s = Some (Some (i, ms))" by simp
    with assms have "\<not> length (drop (Suc i) s) < 2"
      by (auto simp: decode_event_cascade Let_def split: if_splits)
    then obtain c d r where "drop (Suc i) s = c # d # r"
      by (cases "drop (Suc i) s"; cases "tl (drop (Suc i) s)") auto
    with h that(2) show thesis by blast
  qed
qed

text \<open>What the decoder has decided on the bytes seen so far, later bytes do not change.\<close>

lemma decode_stable:
  assumes nm: "decode_event_with_len s \<noteq> NeedMore"
  shows "decode_event_with_len (s @ t) = decode_event_with_len s"
  using nm
proof (cases rule: decode_NeedMore_cases)
  case bad_ms
  with decode_header_stable [OF bad_ms, of t] show ?thesis by (simp add: decode_event_cascade)
next
  case (header i ms c d r)
  have drops: "drop (Suc i) (s @ t) = c # d # r @ t"
    using header decode_header_index [OF header(1)] by simp
  note eqs = header drops decode_header_stable [OF header(1), of t]
  show ?thesis
  proof (cases "decode_header r")
    case None
    with nm eqs show ?thesis
      by (auto simp: decode_event_cascade Let_def simp del: drop_append length_drop split: if_splits)
  next
    case (Some h2)
    note second = Some decode_header_stable [OF Some, of t]
    show ?thesis
    proof (cases h2)
      case None
      with second eqs show ?thesis
        by (simp add: decode_event_cascade Let_def del: drop_append length_drop)
    next
      case (Some jl)
      obtain j len where jl: "jl = (j, len)" by (cases jl)
      define e where "e = i + 1 + 2 + j + 1 + len"
      have "d \<noteq> space \<or> c \<noteq> CHR ''o'' \<and> c \<noteq> CHR ''e'' \<or> MAX_RECORD_BYTES < len \<or> e < length s"
        using nm second eqs Some jl
        by (auto simp: decode_event_cascade Let_def e_def simp del: drop_append length_drop split: if_splits)
      moreover have "e < length s \<Longrightarrow> (s @ t) ! e = s ! e"
          "e < length s \<Longrightarrow> take len (drop (i + 1 + 2 + j + 1) (s @ t)) = take len (drop (i + 1 + 2 + j + 1) s)"
        by (simp_all add: nth_append e_def)
      ultimately show ?thesis
        using second eqs Some jl
        by (auto simp: decode_event_cascade Let_def e_def simp del: drop_append length_drop)
    qed
  qed
qed

section \<open>Whole files\<close>

text \<open>
  The loop of \<^verbatim>\<open>parse_events_file\<close>: the cursor moves past a decoded record, or past the next
  newline after a malformed one; it stops at the first undecided byte.
\<close>

function parse_events_loop :: "bytes \<Rightarrow> nat \<Rightarrow> log_entry list \<Rightarrow> log_entry list" where
  "parse_events_loop bs cursor out =
     (if cursor < length bs then
       (case decode_event_with_len (drop cursor bs) of
          Record entry consumed \<Rightarrow> parse_events_loop bs (cursor + consumed) (out @ [entry])
        | NeedMore \<Rightarrow> out
        | Malformed \<Rightarrow>
            (case resync_offset (drop cursor bs) of
               Some skip \<Rightarrow> parse_events_loop bs (cursor + skip) out
             | None \<Rightarrow> out))
      else out)"
  by pat_completeness auto
termination
  by (relation "measure (\<lambda>(bs, cursor, out). length bs - cursor)")
    (auto dest!: decode_Record_length resync_offset_length)

declare parse_events_loop.simps [simp del]

definition parse_events_file :: "bytes \<Rightarrow> log_entry list" where
  "parse_events_file bs = parse_events_loop bs 0 []"

text \<open>
  The specification: all entries of a byte list, and the suffix that is not yet decided.
\<close>

function decode_all :: "bytes \<Rightarrow> log_entry list \<times> bytes" where
  "decode_all s =
     (if s = [] then ([], [])
      else (case decode_event_with_len s of
          Record e n \<Rightarrow> (let (es, r) = decode_all (drop n s) in (e # es, r))
        | NeedMore \<Rightarrow> ([], s)
        | Malformed \<Rightarrow> (case resync_offset s of Some k \<Rightarrow> decode_all (drop k s) | None \<Rightarrow> ([], s))))"
  by pat_completeness auto
termination
  by (relation "measure length") (auto dest!: decode_Record_length resync_offset_length)

declare decode_all.simps [simp del]

lemma decode_Nil [simp]: "decode_event_with_len [] = NeedMore"
  by (simp add: decode_event_with_len_def)

lemma decode_all_Nil [simp]: "decode_all [] = ([], [])"
  by (simp add: decode_all.simps)

lemma decode_nonempty: "decode_event_with_len s = Record e n \<Longrightarrow> s \<noteq> []"
  using decode_Record_length by fastforce

lemma decode_all_Record:
  "decode_event_with_len s = Record e n \<Longrightarrow>
     decode_all s = (e # fst (decode_all (drop n s)), snd (decode_all (drop n s)))"
  by (simp add: decode_all.simps [of s] decode_nonempty split: prod.split)

lemma decode_all_NeedMore: "decode_event_with_len s = NeedMore \<Longrightarrow> decode_all s = ([], s)"
  by (simp add: decode_all.simps [of s])

lemma decode_all_skip:
  "decode_event_with_len s = Malformed \<Longrightarrow> resync_offset s = Some k \<Longrightarrow> decode_all s = decode_all (drop k s)"
  by (subst decode_all.simps) auto

lemma decode_all_stuck:
  "decode_event_with_len s = Malformed \<Longrightarrow> resync_offset s = None \<Longrightarrow> decode_all s = ([], s)"
  by (subst decode_all.simps) auto

lemma decode_all_cases:
  obtains (one) e n where "decode_event_with_len s = Record e n"
  | (stop) "decode_all s = ([], s)"
  | (skip) k where "decode_event_with_len s = Malformed" "resync_offset s = Some k"
  by (cases "decode_event_with_len s"; cases "resync_offset s")
    (auto intro: that decode_all_NeedMore decode_all_stuck)

lemma parse_events_loop_decode_all:
  "parse_events_loop bs cursor out = out @ fst (decode_all (drop cursor bs))"
proof (induction bs cursor out rule: parse_events_loop.induct)
  case (1 bs cursor out)
  show ?case
  proof (cases "cursor < length bs")
    case True
    with "1.IH" show ?thesis
      by (subst parse_events_loop.simps)
        (auto simp: decode_all_Record decode_all_NeedMore decode_all_skip decode_all_stuck add.commute
          split: decoded.split option.split)
  next
    case False
    then show ?thesis by (subst parse_events_loop.simps) simp
  qed
qed

lemma parse_events_file_decode_all: "parse_events_file bs = fst (decode_all bs)"
  by (simp add: parse_events_file_def parse_events_loop_decode_all)

text \<open>Decoding in two pieces, the undecided suffix of the first carried over, is decoding at once.\<close>

lemma decode_all_append:
  "decode_all (s @ t) =
     (fst (decode_all s) @ fst (decode_all (snd (decode_all s) @ t)), snd (decode_all (snd (decode_all s) @ t)))"
proof (induction s rule: decode_all.induct)
  case (1 s)
  show ?case
  proof (cases s rule: decode_all_cases)
    case (one e n)
    have "decode_event_with_len (s @ t) = Record e n"
      using decode_stable [of s t] one by simp
    moreover have "drop n (s @ t) = drop n s @ t"
      using decode_Record_length [OF one] by simp
    ultimately show ?thesis
      using one "1.IH"(1) [OF _ one] decode_nonempty [OF one] by (simp add: decode_all_Record)
  next
    case stop
    then show ?thesis by simp
  next
    case (skip k)
    have "decode_event_with_len (s @ t) = Malformed"
      using decode_stable [of s t] skip by simp
    moreover have "drop k (s @ t) = drop k s @ t"
      using resync_offset_length [OF skip(2)] by simp
    ultimately have st: "decode_all (s @ t) = decode_all (drop k s @ t)"
      using decode_all_skip [OF _ resync_offset_stable [OF skip(2)], of t] by simp
    have "s \<noteq> []" using skip by auto
    from "1.IH"(2) [OF this skip] show ?thesis
      by (simp only: st decode_all_skip [OF skip])
  qed
qed

lemma decode_all_remainder: "\<exists>p. s = p @ snd (decode_all s)"
proof (induction s rule: decode_all.induct)
  case (1 s)
  show ?case
  proof (cases s rule: decode_all_cases)
    case (one e n)
    then obtain p where "drop n s = p @ snd (decode_all (drop n s))"
      using "1.IH"(1) decode_nonempty [OF one] by blast
    then have "s = (take n s @ p) @ snd (decode_all s)"
      by (simp only: decode_all_Record [OF one] append_assoc snd_conv) (metis append_take_drop_id)
    then show ?thesis by blast
  next
    case stop
    then show ?thesis by simp
  next
    case (skip k)
    then obtain p where "drop k s = p @ snd (decode_all (drop k s))"
      using "1.IH"(2) [OF _ skip] by (cases "s = []") auto
    then have "s = (take k s @ p) @ snd (decode_all s)"
      by (simp only: decode_all_skip [OF skip] append_assoc) (metis append_take_drop_id)
    then show ?thesis by blast
  qed
qed

section \<open>Round trips\<close>

text \<open>Times are stored with millisecond precision: what comes back is the truncated instant.\<close>

definition truncate_ms :: "log_entry \<Rightarrow> log_entry" where
  "truncate_ms e = e\<lparr>entry_timestamp := int (timestamp_ms (entry_timestamp e)) * 10 ^ 6\<rparr>"

lemma timestamp_ms_bound: "timestamp_ms t < 2 ^ 64"
  by (auto simp: timestamp_ms_def min_def)

lemma decode_header_show_nat [simp]:
  "n < 2 ^ 64 \<Longrightarrow> decode_header (show_nat n @ space # t) = Some (Some (length (show_nat n), n))"
  by (simp add: decode_header_def)

lemma encode_event_unfold:
  "encode_event e = show_nat (timestamp_ms (entry_timestamp e)) @ space # stream_char (entry_stream e)
     # space # show_nat (length (entry_data e)) @ space # entry_data e @ [newline]"
  by (simp add: encode_event_def encode_record_into_def)

lemma encode_event_nonempty [simp]: "encode_event e \<noteq> []"
  by (simp add: encode_event_unfold)

lemma encode_record_into_event:
  "encode_record_into buf ts strm dat =
     buf @ encode_event \<lparr>entry_stream = strm, entry_timestamp = ts, entry_data = dat\<rparr>"
  by (simp add: encode_event_def encode_record_into_def)

lemma decode_encode:
  assumes "length (entry_data e) \<le> MAX_RECORD_BYTES"
  shows "decode_event_with_len (encode_event e @ rest) = Record (truncate_ms e) (length (encode_event e))"
proof -
  define m where "m = show_nat (timestamp_ms (entry_timestamp e))"
  define n where "n = show_nat (length (entry_data e))"
  define c where "c = stream_char (entry_stream e)"
  have s: "encode_event e @ rest = m @ space # c # space # n @ space # entry_data e @ newline # rest"
    by (simp add: encode_event_unfold m_def n_def c_def)
  have l: "length (encode_event e) = length m + 1 + 2 + length n + 1 + length (entry_data e) + 1"
    by (simp add: encode_event_unfold m_def n_def)
  have h1: "decode_header (m @ space # t) = Some (Some (length m, timestamp_ms (entry_timestamp e)))" for t
    unfolding m_def by (rule decode_header_show_nat [OF timestamp_ms_bound])
  have "length (entry_data e) < 2 ^ 64"
    using assms by (simp add: MAX_RECORD_BYTES_def)
  then have h2: "decode_header (n @ space # t) = Some (Some (length n, length (entry_data e)))" for t
    by (simp add: n_def)
  have c: "c = CHR ''o'' \<or> c = CHR ''e''" "(if c = CHR ''o'' then Stdout else Stderr) = entry_stream e"
    by (cases "entry_stream e"; simp add: c_def)+
  have "length m + 1 + 2 + length n + 1 + length (entry_data e) + 1 \<le> length (encode_event e @ rest)"
    using l by simp
  moreover have "(encode_event e @ rest) ! (length m + 1 + 2 + length n + 1 + length (entry_data e)) = newline"
    by (simp add: s nth_append)
  moreover have "take (length (entry_data e)) (drop (length m + 1 + 2 + length n + 1) (encode_event e @ rest))
      = entry_data e"
    by (simp add: s numeral_eq_Suc)
  ultimately show ?thesis
    using assms h1 h2 c by (simp add: decode_event_cascade s l truncate_ms_def Let_def)
qed

text \<open>A cut-off record is undecided, never a shorter record and never an error.\<close>

lemma decode_cut_record:
  assumes "length (entry_data e) \<le> MAX_RECORD_BYTES" and cut: "strict_prefix p (encode_event e)"
  shows "decode_event_with_len p = NeedMore"
proof (rule ccontr)
  assume nm: "decode_event_with_len p \<noteq> NeedMore"
  from cut obtain t where t: "encode_event e = p @ t" "t \<noteq> []"
    by (auto elim: strict_prefixE')
  have "decode_event_with_len p = Record (truncate_ms e) (length (encode_event e))"
    using decode_stable [OF nm, of t] decode_encode [OF assms(1), of "[]"] t by simp
  then have "length (encode_event e) \<le> length p"
    using decode_Record_length by blast
  with t show False by simp
qed

definition encode_events :: "log_entry list \<Rightarrow> bytes" where
  "encode_events es = concat (map encode_event es)"

lemma encode_events_simps [simp]:
  "encode_events [] = []" "encode_events (e # es) = encode_event e @ encode_events es"
  "encode_events (es @ fs) = encode_events es @ encode_events fs"
  by (simp_all add: encode_events_def)

definition storable :: "log_entry \<Rightarrow> bool" where
  "storable e \<longleftrightarrow> length (entry_data e) \<le> MAX_RECORD_BYTES"

lemma decode_all_encode_events:
  "list_all storable es \<Longrightarrow>
     decode_all (encode_events es @ rest) = (map truncate_ms es @ fst (decode_all rest), snd (decode_all rest))"
  by (induction es) (simp_all add: decode_encode decode_all_Record storable_def)

lemma decode_all_cut_record:
  "storable e \<Longrightarrow> strict_prefix p (encode_event e) \<Longrightarrow> decode_all p = ([], p)"
  by (simp add: decode_cut_record decode_all_NeedMore storable_def)

lemma truncate_ms_idem [simp]: "truncate_ms (truncate_ms e) = truncate_ms e"
  by (simp add: truncate_ms_def timestamp_ms_def)

lemma truncate_ms_data [simp]:
  "entry_data (truncate_ms e) = entry_data e" "entry_stream (truncate_ms e) = entry_stream e"
  by (simp_all add: truncate_ms_def)

text \<open>A line that is not a record is skipped as a whole.\<close>

lemma decode_all_garbage_line:
  assumes "newline \<notin> set g" and "decode_event_with_len (g @ [newline]) = Malformed"
  shows "decode_all (g @ newline # rest) = decode_all rest"
proof -
  have "decode_event_with_len (g @ newline # rest) = Malformed"
    using decode_stable [of "g @ [newline]" rest] assms(2) by simp
  moreover have "resync_offset (g @ newline # rest) = Some (length g + 1)"
    using assms(1) by (simp add: resync_offset_def)
  ultimately show ?thesis by (simp add: decode_all_skip)
qed

section \<open>Properties\<close>

text \<open>
  C6: the log format round-trips and survives a crash in the middle of a write: a file that holds
  complete records followed by any cut-off record parses to exactly the complete ones, in order,
  with their stream, their bytes (newlines and spaces included) and their time to the millisecond.
\<close>

theorem parse_events_file_roundtrip:
  assumes "list_all storable es" and "storable e" and "strict_prefix p (encode_event e)"
  shows "parse_events_file (encode_events es @ p) = map truncate_ms es"
  using assms decode_all_encode_events [of es p] decode_all_cut_record [of e p]
  by (simp add: parse_events_file_decode_all)

theorem parse_events_file_roundtrip_witness:
  "parse_events_file (encode_events [\<lparr>entry_stream = Stderr, entry_timestamp = 1500000, entry_data = ''a b''\<rparr>] @ ''17 o'')
     = [\<lparr>entry_stream = Stderr, entry_timestamp = 1000000, entry_data = ''a b''\<rparr>]"
proof -
  let ?e = "\<lparr>entry_stream = Stdout, entry_timestamp = 17000000, entry_data = ''x''\<rparr>"
  have "encode_event ?e = ''17 o 1 x'' @ [newline]"
    by (simp add: encode_event_unfold timestamp_ms_def show_nat.simps digit_chars)
  then have "strict_prefix ''17 o'' (encode_event ?e)" by simp
  with parse_events_file_roundtrip
    [of "[\<lparr>entry_stream = Stderr, entry_timestamp = 1500000, entry_data = ''a b''\<rparr>]" ?e "''17 o''"]
  show ?thesis by (simp add: storable_def MAX_RECORD_BYTES_def truncate_ms_def timestamp_ms_def)
qed

text \<open>
  C10: corruption is contained: a line that is not a record, anywhere between records, costs exactly
  itself; every record before it and after it is still returned.
\<close>

theorem parse_events_file_resyncs:
  assumes "list_all storable es" "list_all storable ds"
    and "newline \<notin> set g" "decode_event_with_len (g @ [newline]) = Malformed"
  shows "parse_events_file (encode_events es @ g @ newline # encode_events ds) = map truncate_ms (es @ ds)"
  using assms decode_all_encode_events [of es "g @ newline # encode_events ds"]
    decode_all_encode_events [of ds "[]"] decode_all_garbage_line [of g "encode_events ds"]
  by (simp add: parse_events_file_decode_all)

theorem parse_events_file_resyncs_witness:
  "parse_events_file (encode_events [\<lparr>entry_stream = Stdout, entry_timestamp = 0, entry_data = ''a''\<rparr>]
      @ ''junk x'' @ newline # encode_events [\<lparr>entry_stream = Stderr, entry_timestamp = 0, entry_data = ''b''\<rparr>])
   = [\<lparr>entry_stream = Stdout, entry_timestamp = 0, entry_data = ''a''\<rparr>,
      \<lparr>entry_stream = Stderr, entry_timestamp = 0, entry_data = ''b''\<rparr>]"
proof -
  have "decode_event_with_len (''junk x'' @ [newline]) = Malformed"
    by (simp add: decode_event_with_len_def parse_uint_def is_digit_def)
  then show ?thesis
    using parse_events_file_resyncs [of "[\<lparr>entry_stream = Stdout, entry_timestamp = 0, entry_data = ''a''\<rparr>]"
        "[\<lparr>entry_stream = Stderr, entry_timestamp = 0, entry_data = ''b''\<rparr>]" "''junk x''"]
    by (simp add: storable_def MAX_RECORD_BYTES_def truncate_ms_def timestamp_ms_def)
qed

end
