(* ===== verification/Log_Files.thy ===== *)
theory Log_Files
  imports Files Log_Codec
begin

text \<open>
  The log directory of a container and the bulk reader (src/src/logs.rs, lines 54-118 and 272-329):
  \<^verbatim>\<open>log_dir_for\<close> and the paths below it, \<^verbatim>\<open>prepare_log_files\<close>, \<^verbatim>\<open>cleanup_log_files\<close>, and
  \<^verbatim>\<open>container_logs_filtered\<close> over \<^verbatim>\<open>events.log\<close> and its rotated history. \<open>home\<close> is the result of
  \<^verbatim>\<open>std::env::home_dir\<close>.
\<close>

section \<open>Paths\<close>

definition log_dir_for :: "string option \<Rightarrow> string \<Rightarrow> string result" where
  "log_dir_for home container_id =
     result_bind (ok_or home (Io ''home directory'' Kind_NotFound))
       (\<lambda>h. Inr (path_join (path_join (path_join h ''.containerd-manager'') ''task-logs'') container_id))"

definition log_paths_for :: "string option \<Rightarrow> string \<Rightarrow> (string \<times> string) result" where
  "log_paths_for home container_id =
     result_bind (log_dir_for home container_id)
       (\<lambda>dir. Inr (path_join dir ''stdout'', path_join dir ''stderr''))"

definition events_path_for :: "string option \<Rightarrow> string \<Rightarrow> string result" where
  "events_path_for home container_id =
     result_bind (log_dir_for home container_id) (\<lambda>dir. Inr (path_join dir ''events.log''))"

definition rotated_path :: "string \<Rightarrow> nat \<Rightarrow> string" where
  "rotated_path events_path n = with_extension events_path (''log.'' @ show_nat n)"

fun filter_existing :: "string list \<Rightarrow> fs \<Rightarrow> string list \<times> fs" where
  "filter_existing [] f = ([], f)"
| "filter_existing (p # ps) f =
     (let (ex, f1) = fs_exists p f; (qs, f2) = filter_existing ps f1
      in (if ex then p # qs else qs, f2))"

definition events_files_oldest_first :: "string \<Rightarrow> fs \<Rightarrow> string list \<times> fs" where
  "events_files_oldest_first events_path f =
     (let (out, f') = filter_existing (map (rotated_path events_path) (rev [1..<Suc MAX_ROTATED_FILES])) f
      in (out @ [events_path], f'))"

section \<open>Creating and removing the directory\<close>

definition io_err :: "string \<Rightarrow> (io_kind + 'a) \<times> fs \<Rightarrow> 'a result \<times> fs" where
  "io_err ctx r = (case r of (Inl k, f) \<Rightarrow> (Inl (Io ctx k), f) | (Inr x, f) \<Rightarrow> (Inr x, f))"

definition parent_dir :: "string \<Rightarrow> string" where
  "parent_dir p = take (length p - Suc (length (takeWhile (\<lambda>c. c \<noteq> CHR ''/'') (rev p)))) p"

definition prepare_log_files :: "string option \<Rightarrow> string \<Rightarrow> fs \<Rightarrow> (string \<times> string) result \<times> fs" where
  "prepare_log_files home container_id f =
    (case log_paths_for home container_id of
       Inl e \<Rightarrow> (Inl e, f)
     | Inr (stdout_path, stderr_path) \<Rightarrow>
       (case io_err ''create task log dir'' (fs_create_dir_all (parent_dir stdout_path) f) of
          (Inl e, f1) \<Rightarrow> (Inl e, f1)
        | (Inr _, f1) \<Rightarrow>
          (case io_err ''create task stdout log'' (fs_write stdout_path [] f1) of
             (Inl e, f2) \<Rightarrow> (Inl e, f2)
           | (Inr _, f2) \<Rightarrow>
             (case io_err ''create task stderr log'' (fs_write stderr_path [] f2) of
                (Inl e, f3) \<Rightarrow> (Inl e, f3)
              | (Inr _, f3) \<Rightarrow> (Inr (stdout_path, stderr_path), f3)))))"

definition cleanup_log_files :: "string option \<Rightarrow> string \<Rightarrow> fs \<Rightarrow> fs" where
  "cleanup_log_files home container_id f =
     (case log_dir_for home container_id of
        Inr dir \<Rightarrow> snd (fs_remove_dir_all dir f) | Inl _ \<Rightarrow> f)"

section \<open>Reading\<close>

record logs_filter =
  lf_tail :: "nat option"
  lf_since :: "system_time option"
  lf_until :: "system_time option"

definition default_filter :: logs_filter where
  "default_filter = \<lparr>lf_tail = None, lf_since = None, lf_until = None\<rparr>"

definition read_file_or_empty :: "string \<Rightarrow> fs \<Rightarrow> bytes result \<times> fs" where
  "read_file_or_empty p f =
     (case fs_read p f of
        (Inr dat, f') \<Rightarrow> (Inr dat, f')
      | (Inl k, f') \<Rightarrow> if k = Kind_NotFound then (Inr [], f') else (Inl (Io ''read task log file'' k), f'))"

fun read_all_events :: "string list \<Rightarrow> log_entry list \<Rightarrow> fs \<Rightarrow> log_entry list result \<times> fs" where
  "read_all_events [] acc f = (Inr acc, f)"
| "read_all_events (p # ps) acc f =
     (case read_file_or_empty p f of
        (Inl e, f') \<Rightarrow> (Inl e, f')
      | (Inr bs, f') \<Rightarrow> read_all_events ps (acc @ parse_events_file bs) f')"

definition apply_filter :: "logs_filter \<Rightarrow> log_entry list \<Rightarrow> log_entry list" where
  "apply_filter flt es =
     (let es1 = (case lf_since flt of Some t \<Rightarrow> filter (\<lambda>e. entry_timestamp e \<ge> t) es | None \<Rightarrow> es);
          es2 = (case lf_until flt of Some t \<Rightarrow> filter (\<lambda>e. entry_timestamp e \<le> t) es1 | None \<Rightarrow> es1)
      in case lf_tail flt of
           Some n \<Rightarrow> if length es2 > n then drop (length es2 - n) es2 else es2
         | None \<Rightarrow> es2)"

definition container_logs_filtered ::
  "string option \<Rightarrow> string \<Rightarrow> logs_filter \<Rightarrow> fs \<Rightarrow> log_entry list result \<times> fs" where
  "container_logs_filtered home container_id flt f =
     (case events_path_for home container_id of
        Inl e \<Rightarrow> (Inl e, f)
      | Inr events_path \<Rightarrow>
        (let (files, f1) = events_files_oldest_first events_path f in
         case read_all_events files [] f1 of
           (Inl e, f2) \<Rightarrow> (Inl e, f2)
         | (Inr es, f2) \<Rightarrow> (Inr (apply_filter flt es), f2)))"

definition container_logs :: "string option \<Rightarrow> string \<Rightarrow> fs \<Rightarrow> log_entry list result \<times> fs" where
  "container_logs home container_id f = container_logs_filtered home container_id default_filter f"

section \<open>Where the files are\<close>

lemma path_join_name [simp]:
  "b \<noteq> [] \<Longrightarrow> hd b \<noteq> CHR ''/'' \<Longrightarrow> a \<noteq> [] \<Longrightarrow> last a \<noteq> CHR ''/'' \<Longrightarrow> path_join a b = a @ CHR ''/'' # b"
  by (simp add: path_join_def)

definition logs_root :: "string \<Rightarrow> string" where
  "logs_root h = path_join (path_join h ''.containerd-manager'') ''task-logs''"

lemma path_join_last: "b \<noteq> [] \<Longrightarrow> path_join a b \<noteq> [] \<and> last (path_join a b) = last b"
  by (auto simp: path_join_def)

lemma valid_id_path:
  assumes "validate_identifier c = Inr ()"
  shows "c \<noteq> []" "hd c \<noteq> CHR ''/''" "last c \<noteq> CHR ''/''" "CHR ''/'' \<notin> set c"
proof -
  show ne: "c \<noteq> []" and ns: "CHR ''/'' \<notin> set c"
    using assms validate_identifier_no_slash by (simp_all add: validate_scan)
  show "hd c \<noteq> CHR ''/''" "last c \<noteq> CHR ''/''"
    using ne ns by (metis hd_in_set, metis last_in_set)
qed

lemma log_dir_valid:
  assumes "validate_identifier c = Inr ()"
  shows "log_dir_for (Some h) c = Inr (logs_root h @ CHR ''/'' # c)"
proof -
  have "logs_root h \<noteq> []" "last (logs_root h) = CHR ''s''"
    using path_join_last [of "''task-logs''" "path_join h ''.containerd-manager''"]
    by (simp_all add: logs_root_def)
  with valid_id_path [OF assms] show ?thesis
    by (simp add: log_dir_for_def flip: logs_root_def)
qed

lemma events_path_valid:
  assumes "validate_identifier c = Inr ()"
  shows "events_path_for (Some h) c = Inr (logs_root h @ CHR ''/'' # c @ ''/events.log'')"
  using valid_id_path [OF assms] by (simp add: events_path_for_def log_dir_valid [OF assms])

lemma log_paths_valid:
  assumes "validate_identifier c = Inr ()"
  shows "log_paths_for (Some h) c =
    Inr (logs_root h @ CHR ''/'' # c @ ''/stdout'', logs_root h @ CHR ''/'' # c @ ''/stderr'')"
  using valid_id_path [OF assms] by (simp add: log_paths_for_def log_dir_valid [OF assms])

lemma rotated_path_eq: "rotated_path (dir @ ''/events.log'') n = dir @ ''/events.log.'' @ show_nat n"
proof -
  have "with_extension ((dir @ ''/'') @ ''events'' @ CHR ''.'' # ''log'') ext
      = (dir @ ''/'') @ ''events'' @ CHR ''.'' # ext" for ext
    by (rule with_extension_replace) auto
  then show ?thesis by (simp add: rotated_path_def)
qed

text \<open>The directories of two containers are disjoint: neither is below the other.\<close>

lemma takeWhile_component:
  "CHR ''/'' \<notin> set c \<Longrightarrow> u = [] \<or> hd u = CHR ''/'' \<Longrightarrow> takeWhile (\<lambda>x. x \<noteq> CHR ''/'') (c @ u) = c"
  by (cases u) (auto simp: takeWhile_append takeWhile_eq_all_conv)

lemma below_component:
  assumes "CHR ''/'' \<notin> set c" and "below (root @ CHR ''/'' # c) p"
  shows "takeWhile (\<lambda>x. x \<noteq> CHR ''/'') (drop (Suc (length root)) p) = c"
proof -
  from assms(2) obtain u where "p = root @ CHR ''/'' # c @ u" "u = [] \<or> hd u = CHR ''/''"
    by (fastforce simp: below_def prefix_def)
  with assms(1) show ?thesis by (simp add: takeWhile_component)
qed

lemma log_dirs_disjoint:
  assumes "validate_identifier c = Inr ()" "validate_identifier d = Inr ()" "c \<noteq> d"
    and "below (logs_root h @ CHR ''/'' # d) p"
  shows "\<not> below (logs_root h @ CHR ''/'' # c) p"
  using below_component valid_id_path(4) assms by metis

section \<open>What the bulk reader returns\<close>

text \<open>Slot 0 is the live file, slots 1 to 5 the rotated ones.\<close>

definition slot :: "string \<Rightarrow> nat \<Rightarrow> string" where
  "slot p k = (if k = 0 then p else rotated_path p k)"

definition is_events_path :: "string \<Rightarrow> bool" where
  "is_events_path p \<longleftrightarrow> (\<exists>dir. p = dir @ ''/events.log'')"

lemma slot_eq: "is_events_path p \<Longrightarrow> 0 < k \<Longrightarrow> slot p k = p @ CHR ''.'' # show_nat k"
  by (auto simp: is_events_path_def slot_def rotated_path_eq)

lemma slot_inj [simp]: "is_events_path p \<Longrightarrow> slot p j = slot p k \<longleftrightarrow> j = k"
proof -
  assume p: "is_events_path p"
  have "slot p 0 = p" by (simp add: slot_def)
  then show ?thesis
    using slot_eq [OF p] by (cases "j = 0"; cases "k = 0") auto
qed

definition slot_events :: "fs \<Rightarrow> string \<Rightarrow> nat \<Rightarrow> log_entry list" where
  "slot_events f p k = (case content f (slot p k) of None \<Rightarrow> [] | Some b \<Rightarrow> parse_events_file b)"

text \<open>The history of a container, oldest file first.\<close>

definition history :: "fs \<Rightarrow> string \<Rightarrow> log_entry list" where
  "history f p = concat (map (slot_events f p) (rev [0..<Suc MAX_ROTATED_FILES]))"

lemma filter_existing_quiet:
  "quiet f \<Longrightarrow> filter_existing ps f = (filter (\<lambda>p. fs_names f p \<noteq> None) ps, f)"
  by (induction ps) (simp_all add: fs_exists_def)

lemma parse_events_file_Nil [simp]: "parse_events_file [] = []"
  by (simp add: parse_events_file_decode_all)

lemma read_all_events_quiet:
  "quiet f \<Longrightarrow> read_all_events ps acc f =
     (Inr (acc @ concat (map (\<lambda>p. case content f p of None \<Rightarrow> [] | Some b \<Rightarrow> parse_events_file b) ps)), f)"
  by (induction ps arbitrary: acc) (simp_all add: read_file_or_empty_def fs_read_def split: option.split)

lemma concat_filter_empty: "\<forall>x\<in>set xs. \<not> P x \<longrightarrow> g x = [] \<Longrightarrow> concat (map g (filter P xs)) = concat (map g xs)"
  by (induction xs) auto

lemma history_files:
  "history f p = concat (map (\<lambda>q. case content f q of None \<Rightarrow> [] | Some b \<Rightarrow> parse_events_file b)
     (map (rotated_path p) (rev [1..<Suc MAX_ROTATED_FILES]) @ [p]))"
proof -
  have "[0..<Suc MAX_ROTATED_FILES] = 0 # [1..<Suc MAX_ROTATED_FILES]"
    by (simp add: upt_conv_Cons)
  moreover have "map (slot_events f p) (rev [1..<Suc MAX_ROTATED_FILES]) =
      map (\<lambda>q. case content f q of None \<Rightarrow> [] | Some b \<Rightarrow> parse_events_file b)
        (map (rotated_path p) (rev [1..<Suc MAX_ROTATED_FILES]))"
    by (auto simp: slot_events_def slot_def simp del: upt_Suc)
  ultimately show ?thesis
    by (simp only: history_def rev.simps map_append concat_append list.map concat.simps append_Nil2
        slot_events_def [of f p 0] slot_def [of p 0] simp_thms if_True)
qed

lemma read_history_files:
  assumes "quiet f"
  shows "read_all_events (fst (events_files_oldest_first p f)) [] f = (Inr (history f p), f)"
    and "snd (events_files_oldest_first p f) = f"
proof -
  define g where "g = (\<lambda>q. case content f q of None \<Rightarrow> [] | Some b \<Rightarrow> parse_events_file b)"
  have "concat (map g (filter (\<lambda>p. fs_names f p \<noteq> None) qs)) = concat (map g qs)" for qs
    by (rule concat_filter_empty) (simp add: g_def content_def)
  then have g: "concat (map g (filter (\<lambda>p. fs_names f p \<noteq> None)
        (map (rotated_path p) (rev [1..<Suc MAX_ROTATED_FILES])) @ [p])) = history f p"
    by (simp only: history_files map_append concat_append flip: g_def)
  have ev: "events_files_oldest_first p f = (filter (\<lambda>p. fs_names f p \<noteq> None)
        (map (rotated_path p) (rev [1..<Suc MAX_ROTATED_FILES])) @ [p], f)"
    by (simp only: events_files_oldest_first_def filter_existing_quiet [OF assms] Let_def case_prod_conv)
  show "read_all_events (fst (events_files_oldest_first p f)) [] f = (Inr (history f p), f)"
    by (simp only: ev fst_conv read_all_events_quiet [OF assms] append_Nil g flip: g_def)
  show "snd (events_files_oldest_first p f) = f"
    by (simp only: ev snd_conv)
qed

lemma container_logs_filtered_history:
  assumes "quiet f" and "events_path_for home c = Inr p"
  shows "container_logs_filtered home c flt f = (Inr (apply_filter flt (history f p)), f)"
  using read_history_files [OF assms(1), of p] assms(2)
  by (cases "events_files_oldest_first p f") (simp add: container_logs_filtered_def)

lemma apply_filter_default [simp]: "apply_filter default_filter es = es"
  by (simp add: apply_filter_def default_filter_def)

text \<open>What the filter keeps: the window of times, then the last \<open>n\<close>.\<close>

definition in_window :: "logs_filter \<Rightarrow> log_entry \<Rightarrow> bool" where
  "in_window flt e \<longleftrightarrow> (\<forall>t. lf_since flt = Some t \<longrightarrow> t \<le> entry_timestamp e)
     \<and> (\<forall>t. lf_until flt = Some t \<longrightarrow> entry_timestamp e \<le> t)"

lemma apply_filter_window:
  "apply_filter flt es =
     (let ws = filter (in_window flt) es
      in case lf_tail flt of None \<Rightarrow> ws | Some n \<Rightarrow> rev (take n (rev ws)))"
proof -
  have "(case lf_until flt of Some t \<Rightarrow> filter (\<lambda>e. entry_timestamp e \<le> t)
      (case lf_since flt of Some t \<Rightarrow> filter (\<lambda>e. t \<le> entry_timestamp e) es | None \<Rightarrow> es)
    | None \<Rightarrow> (case lf_since flt of Some t \<Rightarrow> filter (\<lambda>e. t \<le> entry_timestamp e) es | None \<Rightarrow> es))
    = filter (in_window flt) es"
    by (cases "lf_since flt"; cases "lf_until flt")
      (auto simp: in_window_def conj_commute intro!: filter_cong)
  then show ?thesis
    by (simp add: apply_filter_def Let_def rev_take split: option.split)
qed

lemma slot_events_encoded:
  "list_all storable es \<Longrightarrow> content f (slot p k) = Some (encode_events es) \<or> content f (slot p k) = None \<and> es = []
     \<Longrightarrow> slot_events f p k = map truncate_ms es"
  using decode_all_encode_events [of es "[]"] by (auto simp: slot_events_def parse_events_file_decode_all)

definition empty_fs :: fs where
  "empty_fs = \<lparr>fs_names = Map.empty, fs_data = (\<lambda>_. []), fs_next = 0, fs_faults = []\<rparr>"

lemma empty_fs_simps [simp]: "fs_ok empty_fs" "quiet empty_fs" "content empty_fs q = None"
  by (simp_all add: empty_fs_def fs_ok_def quiet_def content_def)

section \<open>Properties\<close>

text \<open>
  C12: \<^verbatim>\<open>container_logs_filtered\<close> reads the rotated history oldest file first and the live file last,
  skips absent files, and returns the records whose time is in the requested window, the last
  \<open>tail\<close> of them when a tail is given, without touching the file system.
\<close>

theorem container_logs_filtered_selects:
  assumes "quiet f" and "events_path_for home c = Inr p"
    and "\<forall>k\<le>MAX_ROTATED_FILES. list_all storable (recs k)
           \<and> (content f (slot p k) = Some (encode_events (recs k)) \<or> content f (slot p k) = None \<and> recs k = [])"
  shows "container_logs_filtered home c flt f =
    (Inr (let ws = filter (in_window flt) (map truncate_ms (concat (map recs (rev [0..<Suc MAX_ROTATED_FILES]))))
          in case lf_tail flt of None \<Rightarrow> ws | Some n \<Rightarrow> rev (take n (rev ws))), f)"
proof -
  have "map (slot_events f p) (rev [0..<Suc MAX_ROTATED_FILES]) = map (\<lambda>k. map truncate_ms (recs k)) (rev [0..<Suc MAX_ROTATED_FILES])"
    using assms(3) slot_events_encoded by (auto simp del: upt_Suc intro!: map_cong)
  then have "history f p = map truncate_ms (concat (map recs (rev [0..<Suc MAX_ROTATED_FILES])))"
    by (simp only: history_def map_concat map_map comp_def)
  with container_logs_filtered_history [OF assms(1,2), of flt] show ?thesis
    by (simp only: apply_filter_window)
qed

theorem container_logs_filtered_selects_witness:
  "container_logs_filtered (Some ''/h'') ''c1'' \<lparr>lf_tail = Some 1, lf_since = None, lf_until = Some 2000000\<rparr>
     (snd (fs_write ''/h/.containerd-manager/task-logs/c1/events.log''
       (encode_events [\<lparr>entry_stream = Stdout, entry_timestamp = 1000000, entry_data = ''a''\<rparr>,
                       \<lparr>entry_stream = Stdout, entry_timestamp = 2000000, entry_data = ''b''\<rparr>,
                       \<lparr>entry_stream = Stdout, entry_timestamp = 3000000, entry_data = ''c''\<rparr>]) empty_fs))
   = (Inr [\<lparr>entry_stream = Stdout, entry_timestamp = 2000000, entry_data = ''b''\<rparr>],
      snd (fs_write ''/h/.containerd-manager/task-logs/c1/events.log''
       (encode_events [\<lparr>entry_stream = Stdout, entry_timestamp = 1000000, entry_data = ''a''\<rparr>,
                       \<lparr>entry_stream = Stdout, entry_timestamp = 2000000, entry_data = ''b''\<rparr>,
                       \<lparr>entry_stream = Stdout, entry_timestamp = 3000000, entry_data = ''c''\<rparr>]) empty_fs))"
proof -
  let ?p = "''/h/.containerd-manager/task-logs/c1/events.log''"
  let ?es = "[\<lparr>entry_stream = Stdout, entry_timestamp = 1000000, entry_data = ''a''\<rparr>,
              \<lparr>entry_stream = Stdout, entry_timestamp = 2000000, entry_data = ''b''\<rparr>,
              \<lparr>entry_stream = Stdout, entry_timestamp = 3000000, entry_data = ''c''\<rparr>]"
  define f where "f = snd (fs_write ?p (encode_events ?es) empty_fs)"
  have c: "content f q = (if q = ?p then Some (encode_events ?es) else None)" for q
    by (simp add: f_def fs_write_def empty_fs_def quiet_def syscall_def create_empty_def content_def del: encode_events_simps)
  have "is_events_path ?p" unfolding is_events_path_def by (intro exI [of _ "''/h/.containerd-manager/task-logs/c1''"]) simp
  then have s: "slot ?p k = ?p \<longleftrightarrow> k = 0" for k using slot_inj [of ?p k 0] by (simp add: slot_def)
  have "quiet f" by (simp add: f_def fs_write_def empty_fs_def quiet_def syscall_def create_empty_def)
  moreover have "events_path_for (Some ''/h'') ''c1'' = Inr ?p"
    by (simp add: events_path_for_def log_dir_for_def path_join_def)
  moreover have "\<forall>k\<le>MAX_ROTATED_FILES. list_all storable (if k = 0 then ?es else [])
           \<and> (content f (slot ?p k) = Some (encode_events (if k = 0 then ?es else []))
              \<or> content f (slot ?p k) = None \<and> (if k = 0 then ?es else []) = [])"
    using c s by (simp add: storable_def MAX_RECORD_BYTES_def del: encode_events_simps)
  ultimately show ?thesis
    unfolding f_def [symmetric]
    by (subst container_logs_filtered_selects [where p = ?p and recs = "\<lambda>k. if k = 0 then ?es else []"])
      (simp_all add: MAX_ROTATED_FILES_def upt_conv_Cons in_window_def truncate_ms_def timestamp_ms_def)
qed

text \<open>
  C13: removing the logs of a container removes its directory and nothing of any other container:
  every file below another container's directory keeps its bytes.
\<close>

theorem cleanup_log_files_isolated:
  assumes "validate_identifier c = Inr ()" "validate_identifier d = Inr ()" "c \<noteq> d"
    and "quiet f" and "log_dir_for home c = Inr cdir" "log_dir_for home d = Inr ddir"
  shows "(below cdir q \<longrightarrow> content (cleanup_log_files home c f) q = None)
    \<and> (below ddir q \<longrightarrow> content (cleanup_log_files home c f) q = content f q)"
proof -
  obtain h where h: "home = Some h" using assms(5) by (cases home) (simp_all add: log_dir_for_def)
  have dirs: "cdir = logs_root h @ CHR ''/'' # c" "ddir = logs_root h @ CHR ''/'' # d"
    using assms log_dir_valid h by simp_all
  have "content (cleanup_log_files home c f) q = (if below cdir q then None else content f q)"
    using assms(4,5) by (simp add: cleanup_log_files_def fs_remove_dir_all_def content_def)
  with log_dirs_disjoint [OF assms(1-3)] dirs show ?thesis by auto
qed

theorem cleanup_log_files_isolated_witness:
  "content (cleanup_log_files (Some ''/h'') ''c1'' (snd (fs_write ''/h/.containerd-manager/task-logs/c10/stdout'' ''x'' empty_fs)))
     ''/h/.containerd-manager/task-logs/c10/stdout'' = Some ''x''"
proof -
  let ?f = "snd (fs_write ''/h/.containerd-manager/task-logs/c10/stdout'' ''x'' empty_fs)"
  have "quiet ?f" "content ?f ''/h/.containerd-manager/task-logs/c10/stdout'' = Some ''x''"
    by (simp_all add: fs_write_def empty_fs_def quiet_def syscall_def create_empty_def content_def)
  moreover have "validate_identifier ''c1'' = Inr ()" "validate_identifier ''c10'' = Inr ()" by code_simp+
  moreover have "log_dir_for (Some ''/h'') ''c1'' = Inr ''/h/.containerd-manager/task-logs/c1''"
    "log_dir_for (Some ''/h'') ''c10'' = Inr ''/h/.containerd-manager/task-logs/c10''"
    by (simp_all add: log_dir_for_def path_join_def)
  ultimately show ?thesis
    using cleanup_log_files_isolated [of "''c1''" "''c10''" ?f "Some ''/h''" "''/h/.containerd-manager/task-logs/c1''"
        "''/h/.containerd-manager/task-logs/c10''" "''/h/.containerd-manager/task-logs/c10/stdout''"]
    by (simp add: below_def)
qed

end
