(* ===== verification/Log_Tailer.thy ===== *)
theory Log_Tailer
  imports Log_Files
begin

text \<open>
  The background tailer of src/src/log_tailer.rs: it reads the raw stdout and stderr files of the
  shim, cuts them into lines and appends one record per line to \<^verbatim>\<open>events.log\<close>, which it rotates.

  A pass is \<open>drain_into_events\<close> on each stream. The loop is driven by an explicit list of rounds: what
  happened to the file system before the pass (the shim writes at any time), what the clock showed,
  and whether the sleep or the stop signal ended the round. Offsets into files are natural numbers.

  The interface \<open>event_sink\<close> says what the tailer needs of the rotated log; \<open>append_batch\<close> provides it.
  The main invariant (\<open>stream_inv\<close>) says that the records of one stream in the history together with
  the buffered partial line are a suffix of the bytes the container wrote: nothing is duplicated,
  reordered or lost except by pruning the oldest rotated file.
\<close>

section \<open>Model\<close>

definition TAILER_INTERVAL :: duration where "TAILER_INTERVAL = from_millis 100"
definition MAX_CONSECUTIVE_ERRORS :: nat where "MAX_CONSECUTIVE_ERRORS = 50"
definition MAX_LEFTOVER_BYTES :: nat where "MAX_LEFTOVER_BYTES = 2 ^ 20"
definition MAX_READ_CHUNK :: nat where "MAX_READ_CHUNK = 4 * 1024 * 1024"

record tail_state =
  ts_pos :: nat
  ts_leftover :: bytes
  ts_file :: "nat option"

definition tail_default :: tail_state where
  "tail_default = \<lparr>ts_pos = 0, ts_leftover = [], ts_file = None\<rparr>"

definition ensure_file_open :: "tail_state \<Rightarrow> string \<Rightarrow> fs \<Rightarrow> bool result \<times> tail_state \<times> fs" where
  "ensure_file_open st raw_path f =
     (if ts_file st \<noteq> None then (Inr True, st, f)
      else (case fs_open raw_path f of
          (Inr i, f') \<Rightarrow> (Inr True, st\<lparr>ts_file := Some i\<rparr>, f')
        | (Inl k, f') \<Rightarrow> if k = Kind_NotFound then (Inr False, st, f')
                        else (Inl (Io ''tailer: open raw'' k), st, f')))"

text \<open>The renames of the rotation loop, for the slots in the order given.\<close>

fun shift_rotated :: "string \<Rightarrow> nat list \<Rightarrow> fs \<Rightarrow> fs" where
  "shift_rotated events_path [] f = f"
| "shift_rotated events_path (n # ns) f =
     (let (ex, f1) = fs_exists (rotated_path events_path n) f;
          f2 = (if ex then snd (fs_rename (rotated_path events_path n) (rotated_path events_path (n + 1)) f1)
                else f1)
      in shift_rotated events_path ns f2)"

definition rotate_now :: "string \<Rightarrow> fs \<Rightarrow> unit result \<times> fs" where
  "rotate_now events_path f =
     (let f1 = snd (fs_remove_file (rotated_path events_path MAX_ROTATED_FILES) f);
          f2 = shift_rotated events_path (rev [1..<MAX_ROTATED_FILES]) f1;
          (ex, f3) = fs_exists events_path f2;
          f4 = (if ex then snd (fs_rename events_path (rotated_path events_path 1) f3) else f3)
      in case fs_open_append events_path f4 of
           (Inl k, f5) \<Rightarrow> (Inl (Io ''tailer: create new events after rotate'' k), f5)
         | (Inr _, f5) \<Rightarrow> (Inr (), f5))"

definition rotate_if_needed :: "string \<Rightarrow> nat \<Rightarrow> fs \<Rightarrow> unit result \<times> fs" where
  "rotate_if_needed events_path incoming f =
     (let (r, f1) = fs_metadata events_path f;
          current_len = (case r of Inr n \<Rightarrow> Inr n
             | Inl k \<Rightarrow> if k = Kind_NotFound then Inr 0 else Inl (Io ''tailer: stat events'' k))
      in case current_len of
           Inl e \<Rightarrow> (Inl e, f1)
         | Inr n \<Rightarrow> if min (n + incoming) (2 ^ 64 - 1) \<le> EVENTS_ROTATE_BYTES then (Inr (), f1)
                    else rotate_now events_path f1)"

definition append_batch :: "string \<Rightarrow> bytes \<Rightarrow> fs \<Rightarrow> unit result \<times> fs" where
  "append_batch events_path batch f =
     (case rotate_if_needed events_path (length batch) f of
        (Inl e, f1) \<Rightarrow> (Inl e, f1)
      | (Inr _, f1) \<Rightarrow>
        (case fs_open_append events_path f1 of
           (Inl k, f2) \<Rightarrow> (Inl (Io ''tailer: open events'' k), f2)
         | (Inr i, f2) \<Rightarrow> io_err ''tailer: write events'' (handle_append i batch f2)))"

text \<open>\<^verbatim>\<open>memchr_iter\<close>: the offsets of the newlines, and the loop over them.\<close>

fun memchr_iter :: "char \<Rightarrow> nat \<Rightarrow> bytes \<Rightarrow> nat list" where
  "memchr_iter c off [] = []"
| "memchr_iter c off (b # bs) = (if b = c then off # memchr_iter c (Suc off) bs else memchr_iter c (Suc off) bs)"

fun encode_lines ::
  "system_time \<Rightarrow> log_stream \<Rightarrow> bytes \<Rightarrow> nat list \<Rightarrow> nat \<Rightarrow> bytes \<Rightarrow> nat \<times> bytes" where
  "encode_lines ts strm combined [] start batch = (start, batch)"
| "encode_lines ts strm combined (nl # nls) start batch =
     encode_lines ts strm combined nls (nl + 1)
       (encode_record_into batch ts strm (take (nl + 1 - start) (drop start combined)))"

text \<open>One batch: the records and the partial line that is kept.\<close>

definition split_batch :: "system_time \<Rightarrow> log_stream \<Rightarrow> bytes \<Rightarrow> bytes \<times> bytes" where
  "split_batch ts strm combined =
     (let (start, batch) = encode_lines ts strm combined (memchr_iter newline 0 combined) 0 []
      in if start < length combined \<and> length combined - start \<ge> MAX_LEFTOVER_BYTES
         then (encode_record_into batch ts strm (drop start combined), [])
         else if start < length combined then (batch, drop start combined)
         else (batch, []))"

definition drain_into_events ::
  "string \<Rightarrow> log_stream \<Rightarrow> tail_state \<Rightarrow> string \<Rightarrow> system_time \<Rightarrow> fs \<Rightarrow> unit result \<times> tail_state \<times> fs" where
  "drain_into_events raw_path strm st events_path now f =
     (case ensure_file_open st raw_path f of
        (Inl e, st1, f1) \<Rightarrow> (Inl e, st1, f1)
      | (Inr False, st1, f1) \<Rightarrow> (Inr (), st1, f1)
      | (Inr True, st1, f1) \<Rightarrow>
        (let i = the (ts_file st1) in
         case handle_len i f1 of
           (Inl k, f2) \<Rightarrow> (Inl (Io ''tailer: stat raw'' k), st1, f2)
         | (Inr len, f2) \<Rightarrow>
           if len < ts_pos st1 then (Inr (), \<lparr>ts_pos = 0, ts_leftover = [], ts_file = None\<rparr>, f2)
           else if len = ts_pos st1 then (Inr (), st1, f2)
           else (case handle_seek i f2 of
             (Inl k, f3) \<Rightarrow> (Inl (Io ''tailer: seek raw'' k), st1, f3)
           | (Inr _, f3) \<Rightarrow>
             (let want = min (len - ts_pos st1) MAX_READ_CHUNK;
                  st2 = st1\<lparr>ts_leftover := []\<rparr> in
              case handle_read i (ts_pos st1) (Some want) f3 of
                (Inl k, f4) \<Rightarrow> (Inl (Io ''tailer: read raw'' k), st2, f4)
              | (Inr dat, f4) \<Rightarrow>
                (let combined = ts_leftover st1 @ dat;
                     (batch, rest) = split_batch now strm combined;
                     st3 = st2\<lparr>ts_pos := ts_pos st1 + length dat, ts_leftover := rest\<rparr> in
                 if batch = [] then (Inr (), st3, f4)
                 else (let (r, f5) = append_batch events_path batch f4 in (r, st3, f5)))))))"

record tailer =
  stdout_state :: tail_state
  stderr_state :: tail_state
  stdout_errors :: nat
  stderr_errors :: nat

definition tailer_default :: tailer where
  "tailer_default = \<lparr>stdout_state = tail_default, stderr_state = tail_default, stdout_errors = 0, stderr_errors = 0\<rparr>"

record log_set =
  stdout_path :: string
  stderr_path :: string
  events_path :: string

datatype wake = Slept | Stop_signal

record round =
  rd_env :: "fs \<Rightarrow> fs"
  rd_now :: system_time
  rd_wake :: wake
  rd_final_env :: "fs \<Rightarrow> fs"

definition drain_both :: "log_set \<Rightarrow> system_time \<Rightarrow> tailer \<Rightarrow> fs \<Rightarrow> unit result \<times> unit result \<times> tailer \<times> fs" where
  "drain_both ps now t f =
     (let (r1, s1, f1) = drain_into_events (stdout_path ps) Stdout (stdout_state t) (events_path ps) now f;
          (r2, s2, f2) = drain_into_events (stderr_path ps) Stderr (stderr_state t) (events_path ps) now f1
      in (r1, r2, t\<lparr>stdout_state := s1, stderr_state := s2\<rparr>, f2))"

definition count_error :: "unit result \<Rightarrow> nat \<Rightarrow> nat" where
  "count_error r n = (case r of Inr _ \<Rightarrow> 0 | Inl _ \<Rightarrow> n + 1)"

datatype tailer_end = Running | Gave_up | Stopped

fun tailer_loop :: "log_set \<Rightarrow> round list \<Rightarrow> tailer \<Rightarrow> fs \<Rightarrow> tailer_end \<times> tailer \<times> fs" where
  "tailer_loop ps [] t f = (Running, t, f)"
| "tailer_loop ps (r # rs) t f =
     (let (r1, r2, t1, f1) = drain_both ps (rd_now r) t (rd_env r f);
          t2 = t1\<lparr>stdout_errors := count_error r1 (stdout_errors t1), stderr_errors := count_error r2 (stderr_errors t1)\<rparr>
      in if stdout_errors t2 \<ge> MAX_CONSECUTIVE_ERRORS \<or> stderr_errors t2 \<ge> MAX_CONSECUTIVE_ERRORS
         then (Gave_up, t2, f1)
         else (case rd_wake r of
             Slept \<Rightarrow> tailer_loop ps rs t2 f1
           | Stop_signal \<Rightarrow>
               (let (_, _, t3, f3) = drain_both ps (rd_now r) t2 (rd_final_env r f1) in (Stopped, t3, f3))))"

text \<open>\<^verbatim>\<open>LogTailer::start\<close>: the paths of the container; the loop runs from the default state.\<close>

definition tailer_start :: "string option \<Rightarrow> string \<Rightarrow> log_set result" where
  "tailer_start home container_id =
     result_bind (log_paths_for home container_id) (\<lambda>(so, se).
       result_bind (events_path_for home container_id)
         (\<lambda>ev. Inr \<lparr>stdout_path = so, stderr_path = se, events_path = ev\<rparr>))"

section \<open>Rotation\<close>

lemma slot_0 [simp]: "slot p 0 = p"
  by (simp add: slot_def)

lemma rotated_slot: "0 < n \<Longrightarrow> rotated_path p n = slot p n"
  by (simp add: slot_def)

text \<open>One step of the loop moves the name of slot \<open>n\<close> to slot \<open>n + 1\<close>, which is free.\<close>

lemma shift_rotated_step:
  assumes "is_events_path p" "quiet f" "0 < n" "fs_names f (slot p (Suc n)) = None"
  shows "shift_rotated p (n # ns) f =
    shift_rotated p ns (f\<lparr>fs_names := (fs_names f)(slot p (Suc n) := fs_names f (slot p n), slot p n := None)\<rparr>)"
proof (cases "fs_names f (slot p n)")
  case None
  then have "(fs_names f)(slot p (Suc n) := None, slot p n := None) = fs_names f"
    using assms by (auto simp: fun_eq_iff)
  with None assms show ?thesis by (simp add: fs_exists_def rotated_slot)
next
  case (Some i)
  with assms show ?thesis
    by (auto simp: fs_exists_def fs_rename_def rotated_slot fun_upd_twist)
qed

definition shifted :: "string \<Rightarrow> nat \<Rightarrow> (string \<rightharpoonup> nat) \<Rightarrow> (string \<rightharpoonup> nat) \<Rightarrow> bool" where
  "shifted p n N N' \<longleftrightarrow>
     (\<forall>k. 1 \<le> k \<and> k \<le> n \<longrightarrow> N' (slot p (Suc k)) = N (slot p k)) \<and>
     (1 \<le> n \<longrightarrow> N' (slot p 1) = None) \<and>
     (\<forall>q. (\<forall>k. 1 \<le> k \<and> k \<le> Suc n \<longrightarrow> q \<noteq> slot p k) \<longrightarrow> N' q = N q)"

lemma shifted_0: "N (slot p 1) = None \<Longrightarrow> shifted p 0 N N"
  by (simp add: shifted_def)

lemma shifted_Suc:
  assumes p: "is_events_path p"
    and sh: "shifted p n (N(slot p (Suc (Suc n)) := N (slot p (Suc n)), slot p (Suc n) := None)) N'"
    and z: "n = 0 \<longrightarrow> N' (slot p 1) = None"
  shows "shifted p (Suc n) N N'"
proof -
  let ?M = "N(slot p (Suc (Suc n)) := N (slot p (Suc n)), slot p (Suc n) := None)"
  have "N' (slot p (Suc k)) = N (slot p k)" if "1 \<le> k" "k \<le> Suc n" for k
  proof (cases "k = Suc n")
    case True
    then have "N' (slot p (Suc k)) = ?M (slot p (Suc k))"
      using sh p by (simp add: shifted_def)
    with True p show ?thesis by simp
  next
    case False
    with that have "N' (slot p (Suc k)) = ?M (slot p k)"
      using sh by (simp add: shifted_def)
    with False that p show ?thesis by simp
  qed
  moreover have "N' (slot p 1) = None"
    using sh z by (cases n) (simp_all add: shifted_def)
  moreover have "N' q = N q" if "\<forall>k. 1 \<le> k \<and> k \<le> Suc (Suc n) \<longrightarrow> q \<noteq> slot p k" for q
  proof -
    have "N' q = ?M q"
      using sh that by (simp add: shifted_def)
    with that show ?thesis by (simp add: fun_upd_def)
  qed
  ultimately show ?thesis by (simp add: shifted_def)
qed

lemma shift_rotated_quiet:
  assumes "is_events_path p" "quiet f" "fs_names f (slot p (Suc n)) = None"
  shows "\<exists>N. shift_rotated p (rev [1..<Suc n]) f = f\<lparr>fs_names := N\<rparr> \<and> shifted p n (fs_names f) N
     \<and> (n = 0 \<longrightarrow> N = fs_names f)"
  using assms(2,3)
proof (induction n arbitrary: f)
  case 0
  then show ?case by (intro exI [of _ "fs_names f"]) (simp add: shifted_0)
next
  case (Suc n)
  define g where "g = f\<lparr>fs_names := (fs_names f)(slot p (Suc (Suc n)) := fs_names f (slot p (Suc n)), slot p (Suc n) := None)\<rparr>"
  have "shift_rotated p (rev [1..<Suc (Suc n)]) f = shift_rotated p (Suc n # rev [1..<Suc n]) f"
    by simp
  also have "\<dots> = shift_rotated p (rev [1..<Suc n]) g"
    using shift_rotated_step [OF assms(1) Suc.prems(1) _ Suc.prems(2)] by (simp only: g_def zero_less_Suc)
  finally have step: "shift_rotated p (rev [1..<Suc (Suc n)]) f = shift_rotated p (rev [1..<Suc n]) g" .
  have g: "quiet g" "fs_names g (slot p (Suc n)) = None"
    using Suc.prems by (simp_all add: g_def)
  from Suc.IH [OF g] obtain N where N: "shift_rotated p (rev [1..<Suc n]) g = g\<lparr>fs_names := N\<rparr>"
    "shifted p n (fs_names g) N" "n = 0 \<longrightarrow> N = fs_names g" by blast
  have "n = 0 \<longrightarrow> N (slot p 1) = None"
    using N(3) g(2) by auto
  with N(2) have "shifted p (Suc n) (fs_names f) N"
    by (intro shifted_Suc [OF assms(1)]) (simp_all add: g_def)
  with N(1) step show ?case by (intro exI [of _ N]) (simp add: g_def)
qed

lemma fs_ok_shift: "fs_ok f \<Longrightarrow> fs_ok (shift_rotated p ns f)"
proof (induction ns arbitrary: f)
  case (Cons n ns)
  obtain ex g where e: "fs_exists (rotated_path p n) f = (ex, g)" by (cases "fs_exists (rotated_path p n) f")
  then have "fs_ok g" using fs_ok_calls(7) [OF Cons.prems, of "rotated_path p n"] by simp
  with e Cons.IH show ?case by simp
qed simp

lemma five: "MAX_ROTATED_FILES = Suc 4"
  by (simp add: MAX_ROTATED_FILES_def)

text \<open>Removing the oldest file and shifting the rotated ones.\<close>

lemma rotate_chain:
  assumes p: "is_events_path p" and q: "quiet f" and ok: "fs_ok f"
  obtains N where
    "shift_rotated p (rev [1..<MAX_ROTATED_FILES]) (snd (fs_remove_file (rotated_path p MAX_ROTATED_FILES) f))
       = f\<lparr>fs_names := N\<rparr>"
    and "fs_ok (f\<lparr>fs_names := N\<rparr>)"
    and "\<And>k. 1 \<le> k \<Longrightarrow> k < MAX_ROTATED_FILES \<Longrightarrow> N (slot p (Suc k)) = fs_names f (slot p k)"
    and "N (slot p 1) = None"
    and "\<And>r. \<forall>k. 1 \<le> k \<and> k \<le> MAX_ROTATED_FILES \<longrightarrow> r \<noteq> slot p k \<Longrightarrow> N r = fs_names f r"
proof -
  define f1 where "f1 = snd (fs_remove_file (rotated_path p MAX_ROTATED_FILES) f)"
  have f1: "f1 = f\<lparr>fs_names := (fs_names f)(slot p 5 := None)\<rparr>"
    using q by (auto simp: f1_def fs_remove_file_def MAX_ROTATED_FILES_def rotated_slot fun_upd_idem)
  then have q1: "quiet f1" "fs_names f1 (slot p (Suc 4)) = None" using q by simp_all
  obtain N where N: "shift_rotated p (rev [1..<MAX_ROTATED_FILES]) f1 = f1\<lparr>fs_names := N\<rparr>"
    "shifted p 4 (fs_names f1) N"
    using shift_rotated_quiet [OF p q1] unfolding five by blast
  have "fs_ok f1" using ok by (simp add: f1_def)
  then have "fs_ok (f1\<lparr>fs_names := N\<rparr>)" using fs_ok_shift [of f1 p "rev [1..<MAX_ROTATED_FILES]"] N(1) by simp
  moreover have "N (slot p (Suc k)) = fs_names f (slot p k)" if "1 \<le> k" "k < MAX_ROTATED_FILES" for k
    using that N(2) p by (simp add: shifted_def five f1)
  moreover have "N r = fs_names f r" if "\<forall>k. 1 \<le> k \<and> k \<le> MAX_ROTATED_FILES \<longrightarrow> r \<noteq> slot p k" for r
    using that N(2) by (simp add: shifted_def five f1)
  ultimately show thesis
    using that [of N] N p by (simp add: shifted_def f1 flip: f1_def)
qed

lemma rotate_now_quiet:
  assumes p: "is_events_path p" and q: "quiet f" and ok: "fs_ok f"
  obtains N where "rotate_now p f = (Inr (), create_empty p (f\<lparr>fs_names := N\<rparr>))"
    and "fs_ok (f\<lparr>fs_names := N\<rparr>)" and "\<And>k. k < MAX_ROTATED_FILES \<Longrightarrow> N (slot p (Suc k)) = fs_names f (slot p k)"
    and "\<And>r. \<forall>k\<le>MAX_ROTATED_FILES. r \<noteq> slot p k \<Longrightarrow> N r = fs_names f r"
proof -
  obtain N1 where shift: "shift_rotated p (rev [1..<MAX_ROTATED_FILES])
        (snd (fs_remove_file (rotated_path p MAX_ROTATED_FILES) f)) = f\<lparr>fs_names := N1\<rparr>"
    and ok1: "fs_ok (f\<lparr>fs_names := N1\<rparr>)"
    and up: "\<And>k. 1 \<le> k \<Longrightarrow> k < MAX_ROTATED_FILES \<Longrightarrow> N1 (slot p (Suc k)) = fs_names f (slot p k)"
    and free: "N1 (slot p 1) = None"
    and other: "\<And>r. \<forall>k. 1 \<le> k \<and> k \<le> MAX_ROTATED_FILES \<longrightarrow> r \<noteq> slot p k \<Longrightarrow> N1 r = fs_names f r"
    using rotate_chain [OF assms] by metis
  have ne: "slot p (Suc k) \<noteq> p" for k using slot_inj [OF p, of "Suc k" 0] by simp
  have live: "N1 p = fs_names f p"
    using other [of p] ne by (metis One_nat_def Suc_le_D)
  define N where "N = N1(slot p 1 := fs_names f p, p := None)"
  have last: "(if N1 p \<noteq> None then snd (fs_rename p (rotated_path p 1) (f\<lparr>fs_names := N1\<rparr>)) else f\<lparr>fs_names := N1\<rparr>)
      = f\<lparr>fs_names := N\<rparr>"
  proof (cases "fs_names f p")
    case None
    then have "N = N1" using live free by (auto simp: N_def fun_eq_iff)
    with None live show ?thesis by simp
  next
    case (Some i)
    then show ?thesis
      using live q ne [of 0] by (auto simp: N_def fs_rename_def rotated_slot fun_upd_twist)
  qed
  have "fs_exists p (f\<lparr>fs_names := N1\<rparr>) = (N1 p \<noteq> None, f\<lparr>fs_names := N1\<rparr>)"
    using q by (simp add: fs_exists_def)
  moreover have "fs_open_append p (f\<lparr>fs_names := N\<rparr>) = (Inr (fs_next f), create_empty p (f\<lparr>fs_names := N\<rparr>))"
    using q by (simp add: fs_open_append_def N_def)
  ultimately have "rotate_now p f = (Inr (), create_empty p (f\<lparr>fs_names := N\<rparr>))"
    by (simp only: rotate_now_def Let_def shift case_prod_conv last sum.case)
  moreover have "fs_ok (f\<lparr>fs_names := N\<rparr>)"
    using ok1 fs_ok_calls(9) [OF ok1, of p "rotated_path p 1"] by (simp flip: last)
  moreover have "N (slot p (Suc k)) = fs_names f (slot p k)" if "k < MAX_ROTATED_FILES" for k
    using that up [of k] ne [of k] p by (cases k) (simp_all add: N_def)
  moreover have "N r = fs_names f r" if "\<forall>k\<le>MAX_ROTATED_FILES. r \<noteq> slot p k" for r
  proof -
    have "r \<noteq> slot p 1" "r \<noteq> slot p 0" using that [rule_format, of 1] that [rule_format, of 0] by (simp_all add: five)
    with that other [of r] show ?thesis by (simp add: N_def)
  qed
  ultimately show thesis using that by blast
qed

section \<open>The rotated log as an event sink\<close>

text \<open>
  Each file of the log is a sequence of complete records that fit the decoder's bound, and the
  rotated files are numbered without a gap. The log is full when the last slot is taken: only then
  does a rotation prune records.
\<close>

definition clean_log :: "fs \<Rightarrow> string \<Rightarrow> bool" where
  "clean_log f p \<longleftrightarrow> (\<forall>k\<le>MAX_ROTATED_FILES. \<exists>es. list_all storable es \<and> content f (slot p k) \<in> {None, Some (encode_events es)})"

definition gap_free :: "fs \<Rightarrow> string \<Rightarrow> bool" where
  "gap_free f p \<longleftrightarrow> (\<forall>k<MAX_ROTATED_FILES. content f (slot p (Suc k)) \<noteq> None \<longrightarrow> content f (slot p k) \<noteq> None)"

definition log_full :: "fs \<Rightarrow> string \<Rightarrow> bool" where
  "log_full f p \<longleftrightarrow> content f (slot p MAX_ROTATED_FILES) \<noteq> None"

text \<open>\<open>covers lossy xs ys\<close>: the log holds the end of what was written, and all of it unless \<open>lossy\<close>.\<close>

definition covers :: "bool \<Rightarrow> 'a list \<Rightarrow> 'a list \<Rightarrow> bool" where
  "covers lossy xs ys \<longleftrightarrow> suffix xs ys \<and> (\<not> lossy \<longrightarrow> xs = ys)"

lemma covers_refl [simp]: "covers l xs xs"
  by (simp add: covers_def)

lemma covers_trans: "covers l xs ys \<Longrightarrow> covers l' ys zs \<Longrightarrow> (l' \<Longrightarrow> l) \<Longrightarrow> covers l xs zs"
  using suffix_order.trans by (auto simp: covers_def)

lemma covers_append: "covers l xs ys \<Longrightarrow> covers l (xs @ zs) (ys @ zs)"
  by (auto simp: covers_def suffix_def)

lemma covers_prepend: "covers l xs (as @ ys) \<Longrightarrow> as @ ys = bs \<Longrightarrow> covers l xs bs"
  by simp

definition log_ok :: "string \<Rightarrow> fs \<Rightarrow> bool" where
  "log_ok p f \<longleftrightarrow> is_events_path p \<and> fs_ok f \<and> quiet f \<and> clean_log f p \<and> gap_free f p"

definition off_log :: "string \<Rightarrow> string \<Rightarrow> bool" where
  "off_log p q \<longleftrightarrow> (\<forall>k\<le>MAX_ROTATED_FILES. q \<noteq> slot p k)"

text \<open>Files outside the log keep their inode and their bytes.\<close>

definition same_off_log :: "string \<Rightarrow> fs \<Rightarrow> fs \<Rightarrow> bool" where
  "same_off_log p f f' \<longleftrightarrow> (\<forall>q. off_log p q \<longrightarrow> fs_names f' q = fs_names f q \<and> content f' q = content f q)"

lemma parse_encode_events [simp]: "list_all storable es \<Longrightarrow> parse_events_file (encode_events es) = map truncate_ms es"
  using decode_all_encode_events [of es "[]"] by (simp add: parse_events_file_decode_all)

lemma history_unfold:
  "history f p = slot_events f p 5 @ slot_events f p 4 @ slot_events f p 3 @ slot_events f p 2 @ slot_events f p 1
     @ slot_events f p 0"
  by (simp add: history_def MAX_ROTATED_FILES_def numeral_eq_Suc)

lemma rotate_now_log:
  assumes "log_ok p f"
  obtains f' where "rotate_now p f = (Inr (), f')" "log_ok p f'" "same_off_log p f f'" "log_full f p \<longrightarrow> log_full f' p"
    "history f p = slot_events f p 5 @ history f' p"
proof -
  have p: "is_events_path p" and ok: "fs_ok f" "quiet f" "clean_log f p" "gap_free f p"
    using assms by (simp_all add: log_ok_def)
  obtain N where r: "rotate_now p f = (Inr (), create_empty p (f\<lparr>fs_names := N\<rparr>))"
    and okN: "fs_ok (f\<lparr>fs_names := N\<rparr>)"
    and up: "\<And>k. k < MAX_ROTATED_FILES \<Longrightarrow> N (slot p (Suc k)) = fs_names f (slot p k)"
    and other: "\<And>r. \<forall>k\<le>MAX_ROTATED_FILES. r \<noteq> slot p k \<Longrightarrow> N r = fs_names f r"
    using rotate_now_quiet [OF p ok(2,1)] by metis
  define f' where "f' = create_empty p (f\<lparr>fs_names := N\<rparr>)"
  have ne: "slot p (Suc k) \<noteq> p" for k using slot_inj [OF p, of "Suc k" 0] by simp
  have live: "content f' (slot p 0) = Some []" using okN by (simp add: f'_def)
  have shift: "content f' (slot p (Suc k)) = content f (slot p k)" if "k < MAX_ROTATED_FILES" for k
    using okN ne [of k] up [OF that] by (simp add: f'_def) (simp add: content_def)
  have "clean_log f' p"
    unfolding clean_log_def
  proof (intro allI impI)
    fix k assume "k \<le> MAX_ROTATED_FILES"
    then show "\<exists>es. list_all storable es \<and> content f' (slot p k) \<in> {None, Some (encode_events es)}"
      using live shift [of "k - 1"] ok(3) by (cases k) (auto simp: clean_log_def intro: exI [of _ "[]"])
  qed
  moreover have "gap_free f' p"
    unfolding gap_free_def
  proof (intro allI impI)
    fix k assume "k < MAX_ROTATED_FILES" "content f' (slot p (Suc k)) \<noteq> None"
    then show "content f' (slot p k) \<noteq> None"
      using live shift [of k] shift [of "k - 1"] ok(4) by (cases k) (auto simp: gap_free_def)
  qed
  ultimately have "log_ok p f'" using p okN ok(2) by (simp add: log_ok_def f'_def)
  moreover have "log_full f p \<longrightarrow> log_full f' p"
    using shift [of 4] ok(4) by (simp add: log_full_def gap_free_def five)
  moreover have "same_off_log p f f'"
  proof -
    have "q \<noteq> p" if "off_log p q" for q using that slot_0 [of p] by (auto simp: off_log_def)
    moreover have "fs_names f' q = fs_names f q" if "off_log p q" "q \<noteq> p" for q
      using that other by (simp add: off_log_def f'_def create_empty_def)
    moreover have "content f' q = content f q" if "off_log p q" "q \<noteq> p" for q
      using that other okN by (simp add: off_log_def f'_def) (simp add: content_def)
    ultimately show ?thesis by (auto simp: same_off_log_def)
  qed
  moreover have "slot_events f' p (Suc k) = slot_events f p k" if "k < MAX_ROTATED_FILES" for k
    using shift [OF that] by (simp add: slot_events_def)
  then have "history f p = slot_events f p 5 @ history f' p"
    using live by (simp add: history_unfold MAX_ROTATED_FILES_def numeral_eq_Suc slot_events_def [of f' p 0])
  ultimately show thesis using that [of f'] r live by (simp add: f'_def)
qed

lemma rotate_if_needed_quiet:
  "quiet f \<Longrightarrow> rotate_if_needed p n f =
     (if min ((case content f p of None \<Rightarrow> 0 | Some d \<Rightarrow> length d) + n) (2 ^ 64 - 1) \<le> EVENTS_ROTATE_BYTES
      then (Inr (), f) else rotate_now p f)"
  by (simp add: rotate_if_needed_def fs_metadata_def split: option.split)

lemma append_live:
  assumes "fs_ok f" "quiet f"
  obtains i f1 f2 where "fs_open_append p f = (Inr i, f1)" "handle_append i b f1 = (Inr (), f2)"
    "fs_ok f2" "quiet f2" "\<And>q. q \<noteq> p \<Longrightarrow> fs_names f2 q = fs_names f q"
    "\<And>q. content f2 q = (if q = p then Some ((case content f p of None \<Rightarrow> [] | Some d \<Rightarrow> d) @ b) else content f q)"
proof (cases "fs_names f p")
  case None
  have n: "fs_names (create_empty p f) p = Some (fs_next f)" "fs_data (create_empty p f) (fs_next f) = []"
    "\<And>q. q \<noteq> p \<Longrightarrow> fs_names (create_empty p f) q = fs_names f q"
    by (simp_all add: create_empty_def)
  let ?f2 = "create_empty p f\<lparr>fs_data := (fs_data (create_empty p f))(fs_next f := b)\<rparr>"
  have "content ?f2 q = (if q = p then Some b else content f q)" for q
    using content_append [OF fs_ok_create [OF assms(1)] n(1), of b q] assms(1) by simp
  with None assms n that [of "fs_next f" "create_empty p f" ?f2] show thesis
    by (simp add: fs_open_append_def handle_append_def content_def [of f p])
next
  case (Some i)
  with assms that [of i f] show thesis
    by (simp add: fs_open_append_def handle_append_def content_append content_def [of f p])
qed

lemma append_batch_rotated:
  assumes "log_ok p f" "list_all storable es" and "rotate_if_needed p (length (encode_events es)) f0 = (Inr (), f)"
  obtains f' where "append_batch p (encode_events es) f0 = (Inr (), f')" "log_ok p f'" "same_off_log p f f'"
    "log_full f' p = log_full f p" "history f' p = history f p @ map truncate_ms es"
proof -
  have p: "is_events_path p" and ok: "fs_ok f" "quiet f" "clean_log f p" "gap_free f p"
    using assms(1) by (simp_all add: log_ok_def)
  obtain i f1 f2 where f2: "fs_open_append p f = (Inr i, f1)" "handle_append i (encode_events es) f1 = (Inr (), f2)"
    "fs_ok f2" "quiet f2" "\<And>q. q \<noteq> p \<Longrightarrow> fs_names f2 q = fs_names f q"
    "\<And>q. content f2 q = (if q = p then Some ((case content f p of None \<Rightarrow> [] | Some d \<Rightarrow> d) @ encode_events es) else content f q)"
    using append_live [OF ok(1,2)] by metis
  obtain ds where ds: "list_all storable ds" "content f (slot p 0) \<in> {None, Some (encode_events ds)}"
    using ok(3) by (auto simp: clean_log_def)
  then obtain cs where cs: "list_all storable cs" "(case content f p of None \<Rightarrow> [] | Some d \<Rightarrow> d) = encode_events cs"
    "slot_events f p 0 = map truncate_ms cs"
    by (cases "content f p") (auto simp: slot_events_def intro: that [of "[]"])
  have live: "content f2 (slot p 0) = Some (encode_events (cs @ es))"
    using f2(6) [of p] cs(2) by simp
  have old: "content f2 (slot p (Suc k)) = content f (slot p (Suc k))" for k
    using f2(6) slot_inj [OF p, of "Suc k" 0] by simp
  have "clean_log f2 p"
    unfolding clean_log_def
  proof (intro allI impI)
    fix k assume "k \<le> MAX_ROTATED_FILES"
    then show "\<exists>es. list_all storable es \<and> content f2 (slot p k) \<in> {None, Some (encode_events es)}"
    proof (cases k)
      case 0
      then show ?thesis using live cs(1) assms(2) by (intro exI [of _ "cs @ es"]) simp
    next
      case (Suc j)
      then show ?thesis
        using old [of j] ok(3) \<open>k \<le> MAX_ROTATED_FILES\<close> by (simp add: clean_log_def)
    qed
  qed
  moreover have "gap_free f2 p"
    unfolding gap_free_def
  proof (intro allI impI)
    fix k assume "k < MAX_ROTATED_FILES" "content f2 (slot p (Suc k)) \<noteq> None"
    then show "content f2 (slot p k) \<noteq> None"
      using live old [of k] old [of "k - 1"] ok(4) by (cases k) (auto simp: gap_free_def)
  qed
  moreover have "log_full f2 p = log_full f p"
    using old [of 4] by (simp add: log_full_def MAX_ROTATED_FILES_def)
  moreover have "slot_events f2 p (Suc k) = slot_events f p (Suc k)" for k
    using old by (simp add: slot_events_def)
  moreover have "slot_events f2 p 0 = slot_events f p 0 @ map truncate_ms es"
    using live cs assms(2) by (simp add: slot_events_def [of f2] del: encode_events_simps slot_0)
  ultimately have "log_ok p f2" "log_full f2 p = log_full f p" "history f2 p = history f p @ map truncate_ms es"
    using p f2 by (simp_all add: log_ok_def history_unfold numeral_eq_Suc)
  moreover have "q \<noteq> p" if "off_log p q" for q using that slot_0 [of p] by (auto simp: off_log_def)
  then have "same_off_log p f f2" using f2(5,6) by (auto simp: same_off_log_def)
  moreover have "append_batch p (encode_events es) f0 = (Inr (), f2)"
    using assms(3) f2(1,2) by (simp add: append_batch_def io_err_def)
  ultimately show thesis using that by blast
qed

lemma same_off_log_trans [trans]: "same_off_log p f g \<Longrightarrow> same_off_log p g h \<Longrightarrow> same_off_log p f h"
  by (simp add: same_off_log_def)

lemma same_off_log_refl [simp]: "same_off_log p f f"
  by (simp add: same_off_log_def)

text \<open>Appending adds the batch at the end of the history; only a full log loses its oldest file.\<close>

lemma append_batch_log:
  assumes "log_ok p f" "list_all storable es"
  obtains f' where "append_batch p (encode_events es) f = (Inr (), f')" "log_ok p f'" "same_off_log p f f'"
    "log_full f p \<longrightarrow> log_full f' p" "covers (log_full f p) (history f' p) (history f p @ map truncate_ms es)"
proof -
  have q: "quiet f" using assms(1) by (simp add: log_ok_def)
  obtain g where g: "rotate_if_needed p (length (encode_events es)) f = (Inr (), g)" "log_ok p g" "same_off_log p f g"
    "log_full f p \<longrightarrow> log_full g p" "history f p \<in> {history g p, slot_events f p 5 @ history g p}"
  proof (cases "rotate_if_needed p (length (encode_events es)) f = (Inr (), f)")
    case True
    with that assms(1) show thesis by simp
  next
    case False
    then have "rotate_if_needed p (length (encode_events es)) f = rotate_now p f"
      unfolding rotate_if_needed_quiet [OF q] by (metis (no_types))
    with rotate_now_log [OF assms(1)] that show thesis by (metis insertCI)
  qed
  have "\<not> log_full f p \<longrightarrow> slot_events f p 5 = []"
    by (simp add: log_full_def slot_events_def MAX_ROTATED_FILES_def)
  with g(5) have "covers (log_full f p) (history g p) (history f p)"
    by (auto simp: covers_def suffix_def)
  moreover obtain f' where f': "append_batch p (encode_events es) f = (Inr (), f')" "log_ok p f'" "same_off_log p g f'"
    "log_full f' p = log_full g p" "history f' p = history g p @ map truncate_ms es"
    using append_batch_rotated [OF g(2) assms(2) g(1)] .
  ultimately show thesis
    using that f' g(4) same_off_log_trans [OF g(3) f'(3)] covers_append by metis
qed

definition stream_bytes :: "log_stream \<Rightarrow> log_entry list \<Rightarrow> bytes" where
  "stream_bytes s es = concat (map entry_data (filter (\<lambda>e. entry_stream e = s) es))"

lemma stream_bytes_simps [simp]:
  "stream_bytes s [] = []" "stream_bytes s (xs @ ys) = stream_bytes s xs @ stream_bytes s ys"
  "stream_bytes s (e # es) = (if entry_stream e = s then entry_data e else []) @ stream_bytes s es"
  "stream_bytes s (map truncate_ms es) = stream_bytes s es"
  by (simp_all add: stream_bytes_def comp_def filter_map)

lemma stream_bytes_same: "list_all (\<lambda>e. entry_stream e = s) es \<Longrightarrow> stream_bytes s es = concat (map entry_data es)"
  by (induction es) simp_all

lemma stream_bytes_other: "list_all (\<lambda>e. entry_stream e = s) es \<Longrightarrow> t \<noteq> s \<Longrightarrow> stream_bytes t es = []"
  by (induction es) auto

lemma covers_stream_bytes: "covers l xs ys \<Longrightarrow> covers l (stream_bytes s xs) (stream_bytes s ys)"
  by (auto simp: covers_def suffix_def)

text \<open>
  What a writer of the log may rely on; \<open>kept\<close> relates two states that agree outside the log, and a
  log that is not \<open>full\<close> loses nothing. The client lemma: cutting the bytes of one stream into records
  and sinking them keeps the records of that stream, with the partial line still buffered, at the
  end of what was written to it.
\<close>

locale event_sink =
  fixes sink :: "bytes \<Rightarrow> 'f \<Rightarrow> 'u result \<times> 'f"
    and hist :: "'f \<Rightarrow> log_entry list"
    and ok :: "'f \<Rightarrow> bool"
    and full :: "'f \<Rightarrow> bool"
    and kept :: "'f \<Rightarrow> 'f \<Rightarrow> bool"
  assumes sink_ok: "ok f \<Longrightarrow> list_all storable es \<Longrightarrow>
      \<exists>u f'. sink (encode_events es) f = (Inr u, f') \<and> ok f' \<and> kept f f' \<and> (full f \<longrightarrow> full f')
        \<and> covers (full f) (hist f') (hist f @ map truncate_ms es)"
begin

lemma sink_records:
  assumes "ok f" and "list_all storable es" and "list_all (\<lambda>e. entry_stream e = s) es"
    and cut: "concat (map entry_data es) @ rest = left @ dat"
    and old: "covers (full f) (stream_bytes s (hist f) @ left) written"
  shows "\<exists>u f'. sink (encode_events es) f = (Inr u, f') \<and> ok f' \<and> kept f f' \<and> (full f \<longrightarrow> full f')
    \<and> covers (full f') (stream_bytes s (hist f') @ rest) (written @ dat)
    \<and> (\<forall>t. t \<noteq> s \<longrightarrow> covers (full f') (stream_bytes t (hist f')) (stream_bytes t (hist f)))"
proof -
  obtain u f' where f': "sink (encode_events es) f = (Inr u, f')" "ok f'" "kept f f'" "full f \<longrightarrow> full f'"
    "covers (full f) (hist f') (hist f @ map truncate_ms es)"
    using sink_ok [OF assms(1,2)] by blast
  have "covers (full f) (stream_bytes s (hist f')) (stream_bytes s (hist f) @ concat (map entry_data es))"
    using covers_stream_bytes [OF f'(5), of s] by (simp add: stream_bytes_same [OF assms(3)])
  from covers_append [OF this, of rest]
  have "covers (full f) (stream_bytes s (hist f') @ rest) ((stream_bytes s (hist f) @ left) @ dat)"
    by (simp add: cut)
  from covers_trans [OF this covers_append [OF old, of dat]]
  have "covers (full f') (stream_bytes s (hist f') @ rest) (written @ dat)"
    using f'(4) by (auto simp: covers_def)
  moreover have "covers (full f') (stream_bytes t (hist f')) (stream_bytes t (hist f))" if "t \<noteq> s" for t
    using covers_stream_bytes [OF f'(5), of t] that f'(4) by (auto simp: stream_bytes_other [OF assms(3)] covers_def)
  ultimately show ?thesis using f' by blast
qed

end

interpretation events_log:
  event_sink "append_batch p" "\<lambda>f. history f p" "log_ok p" "\<lambda>f. log_full f p" "same_off_log p" for p
proof unfold_locales
  fix f es
  assume "log_ok p f" "list_all storable es"
  then show "\<exists>u f'. append_batch p (encode_events es) f = (Inr u, f') \<and> log_ok p f' \<and> same_off_log p f f'
      \<and> (log_full f p \<longrightarrow> log_full f' p) \<and> covers (log_full f p) (history f' p) (history f p @ map truncate_ms es)"
    by (rule append_batch_log) blast
qed

section \<open>Cutting a batch\<close>

text \<open>The specification: complete lines, each with its newline, and the rest.\<close>

fun cut_lines :: "bytes \<Rightarrow> bytes list \<times> bytes" where
  "cut_lines [] = ([], [])"
| "cut_lines (b # bs) =
     (let (ls, rest) = cut_lines bs in
      if b = newline then ([b] # ls, rest)
      else (case ls of [] \<Rightarrow> ([], b # rest) | l # ls' \<Rightarrow> ((b # l) # ls', rest)))"

lemma cut_lines_concat: "concat (fst (cut_lines bs)) @ snd (cut_lines bs) = bs"
  by (induction bs) (auto simp: Let_def split: prod.splits list.splits)

lemma cut_lines_rest: "newline \<notin> set (snd (cut_lines bs))"
  by (induction bs) (auto simp: Let_def split: prod.splits list.splits)

lemma cut_lines_no_newline: "newline \<notin> set bs \<Longrightarrow> cut_lines bs = ([], bs)"
  by (induction bs) auto

lemma cut_lines_line: "newline \<notin> set l \<Longrightarrow> cut_lines (l @ newline # bs) = ((l @ [newline]) # fst (cut_lines bs), snd (cut_lines bs))"
  by (induction l) (auto simp: split: prod.splits)

lemma memchr_iter_append:
  "memchr_iter c off (xs @ ys) = memchr_iter c off xs @ memchr_iter c (off + length xs) ys"
  by (induction xs arbitrary: off) auto

lemma memchr_iter_none: "c \<notin> set xs \<Longrightarrow> memchr_iter c off xs = []"
  by (induction xs arbitrary: off) auto

definition line_entry :: "system_time \<Rightarrow> log_stream \<Rightarrow> bytes \<Rightarrow> log_entry" where
  "line_entry ts strm l = \<lparr>entry_stream = strm, entry_timestamp = ts, entry_data = l\<rparr>"

lemma encode_lines_cut:
  assumes "combined = pre @ bs"
  shows "encode_lines ts strm combined (memchr_iter newline (length pre) bs) (length pre) batch =
    (length combined - length (snd (cut_lines bs)), batch @ encode_events (map (line_entry ts strm) (fst (cut_lines bs))))"
  using assms
proof (induction "length bs" arbitrary: bs pre batch rule: less_induct)
  case less
  show ?case
  proof (cases "newline \<in> set bs")
    case False
    with less.prems show ?thesis by (simp add: cut_lines_no_newline memchr_iter_none)
  next
    case True
    then obtain l bs' where bs: "bs = l @ newline # bs'" "newline \<notin> set l"
      by (meson split_list_first)
    have "memchr_iter newline (length pre) bs = (length pre + length l) # memchr_iter newline (length (pre @ l @ [newline])) bs'"
      using bs by (simp add: memchr_iter_append memchr_iter_none)
    with less.hyps [of bs' "pre @ l @ [newline]"] less.prems bs show ?thesis
      by (simp add: encode_record_into_event cut_lines_line line_entry_def)
  qed
qed

lemma length_concat_member: "l \<in> set ls \<Longrightarrow> length l \<le> length (concat ls)"
  by (induction ls) auto

lemma cut_lines_length: "l \<in> set (fst (cut_lines bs)) \<Longrightarrow> length l \<le> length bs"
  using length_concat_member [of l "fst (cut_lines bs)"] arg_cong [OF cut_lines_concat [of bs], of length]
  by simp

text \<open>
  What a batch holds: the lines in order, nothing lost between the records and what stays buffered,
  which is short and has no newline; no record is longer than the bytes at hand.
\<close>

lemma split_batch_spec:
  obtains es where "fst (split_batch ts strm c) = encode_events es"
    and "list_all (\<lambda>e. entry_stream e = strm) es" and "list_all (\<lambda>e. length (entry_data e) \<le> length c) es"
    and "concat (map entry_data es) @ snd (split_batch ts strm c) = c"
    and "newline \<notin> set (snd (split_batch ts strm c))" and "length (snd (split_batch ts strm c)) < MAX_LEFTOVER_BYTES"
proof -
  define ls rest where "ls = fst (cut_lines c)" and "rest = snd (cut_lines c)"
  have c: "concat ls @ rest = c" and nn: "newline \<notin> set rest"
    using cut_lines_concat cut_lines_rest by (simp_all add: ls_def rest_def)
  have ent: "entry_data \<circ> line_entry ts strm = id" "entry_stream (line_entry ts strm l) = strm" for l
    by (simp_all add: line_entry_def fun_eq_iff)
  have enc: "encode_lines ts strm c (memchr_iter newline 0 c) 0 [] =
      (length c - length rest, encode_events (map (line_entry ts strm) ls))"
    using encode_lines_cut [of c "[]" c ts strm "[]"] by (simp add: ls_def rest_def)
  have d: "drop (length c - length rest) c = rest" and le: "length rest \<le> length c"
    using c by (metis append_eq_conv_conj diff_add_inverse2 length_append, metis le_add2 length_append)
  have big: "list_all (\<lambda>l. length l \<le> length c) ls"
    using cut_lines_length by (auto simp: ls_def list_all_iff)
  show thesis
  proof (cases "MAX_LEFTOVER_BYTES \<le> length rest")
    case True
    then have "split_batch ts strm c = (encode_events (map (line_entry ts strm) (ls @ [rest])), [])"
      using le d by (auto simp: split_batch_def enc encode_record_into_event line_entry_def MAX_LEFTOVER_BYTES_def)
    with that [of "map (line_entry ts strm) (ls @ [rest])"] c big le ent show thesis
      by (simp add: list.pred_map comp_def list_all_iff line_entry_def MAX_LEFTOVER_BYTES_def)
  next
    case False
    then have "split_batch ts strm c = (encode_events (map (line_entry ts strm) ls), rest)"
      using le d by (auto simp: split_batch_def enc)
    with that [of "map (line_entry ts strm) ls"] c big nn False show thesis
      by (simp add: list.pred_map comp_def list_all_iff line_entry_def)
  qed
qed

section \<open>A pass over one stream\<close>

text \<open>
  The invariant of one raw stream: the handle is the file of that name, the offset is inside it,
  the buffered partial line is short and has no newline, and the records of the stream followed by
  the buffer are a suffix of the bytes consumed, which follow those (\<open>base\<close>) that were in the log
  when the tailer started.
\<close>

definition raw_bytes :: "fs \<Rightarrow> string \<Rightarrow> bytes" where
  "raw_bytes f raw = (case content f raw of None \<Rightarrow> [] | Some d \<Rightarrow> d)"

definition stream_inv :: "bytes \<Rightarrow> string \<Rightarrow> string \<Rightarrow> log_stream \<Rightarrow> tail_state \<Rightarrow> fs \<Rightarrow> bool" where
  "stream_inv base p raw s st f \<longleftrightarrow>
     off_log p raw \<and> (\<forall>i. ts_file st = Some i \<longrightarrow> fs_names f raw = Some i)
     \<and> ts_pos st \<le> length (raw_bytes f raw)
     \<and> newline \<notin> set (ts_leftover st) \<and> length (ts_leftover st) < MAX_LEFTOVER_BYTES
     \<and> covers (log_full f p) (stream_bytes s (history f p) @ ts_leftover st) (base @ take (ts_pos st) (raw_bytes f raw))"

lemma raw_bytes_same: "same_off_log p f f' \<Longrightarrow> off_log p raw \<Longrightarrow> raw_bytes f' raw = raw_bytes f raw"
  by (simp add: same_off_log_def raw_bytes_def)

lemma stream_inv_other:
  "stream_inv base p raw s st f \<Longrightarrow> same_off_log p f f'
     \<Longrightarrow> (log_full f p \<longrightarrow> log_full f' p)
     \<Longrightarrow> covers (log_full f' p) (stream_bytes s (history f' p)) (stream_bytes s (history f p)) \<Longrightarrow> stream_inv base p raw s st f'"
  unfolding stream_inv_def
  by (auto simp: raw_bytes_same) (auto simp: same_off_log_def intro: covers_trans covers_append)

lemma storable_chunk:
  "list_all (\<lambda>e. length (entry_data e) \<le> length (left @ dat)) es \<Longrightarrow> length left < MAX_LEFTOVER_BYTES
     \<Longrightarrow> length dat \<le> MAX_READ_CHUNK \<Longrightarrow> list_all storable es"
  by (auto simp: list_all_iff storable_def MAX_LEFTOVER_BYTES_def MAX_READ_CHUNK_def MAX_RECORD_BYTES_def)

lemma ensure_file_open_quiet:
  assumes "quiet f" and "\<forall>i. ts_file st = Some i \<longrightarrow> fs_names f raw = Some i"
  shows "ensure_file_open st raw f =
    (case fs_names f raw of None \<Rightarrow> (Inr False, st, f) | Some i \<Rightarrow> (Inr True, st\<lparr>ts_file := Some i\<rparr>, f))"
  using assms by (cases "ts_file st"; cases "fs_names f raw") (auto simp: ensure_file_open_def fs_open_def)

text \<open>The step that reads and appends, past the guards.\<close>

lemma drain_reading:
  assumes q: "quiet f" and inv: "stream_inv base p raw s st f" and i: "fs_names f raw = Some i"
    and lt: "ts_pos st < length (fs_data f i)"
  shows "drain_into_events raw s st p now f =
    (let dat = take MAX_READ_CHUNK (drop (ts_pos st) (fs_data f i));
         st' = \<lparr>ts_pos = ts_pos st + length dat, ts_leftover = snd (split_batch now s (ts_leftover st @ dat)), ts_file = Some i\<rparr>
     in if fst (split_batch now s (ts_leftover st @ dat)) = [] then (Inr (), st', f)
        else (case append_batch p (fst (split_batch now s (ts_leftover st @ dat))) f of (r, f') \<Rightarrow> (r, st', f')))"
proof -
  have e: "ensure_file_open st raw f = (Inr True, st\<lparr>ts_file := Some i\<rparr>, f)"
    using ensure_file_open_quiet [OF q] inv i by (simp add: stream_inv_def)
  have t: "take (min (length (fs_data f i) - ts_pos st) MAX_READ_CHUNK) (drop (ts_pos st) (fs_data f i))
      = take MAX_READ_CHUNK (drop (ts_pos st) (fs_data f i))"
    by (metis length_drop min.commute take_all_iff take_take order_refl)
  show ?thesis
    using q lt by (simp add: drain_into_events_def e handle_len_def handle_seek_def handle_read_def t Let_def
        del: length_take length_drop split: prod.split)
qed

text \<open>The outcome of a pass that succeeds.\<close>

definition drained :: "bytes \<Rightarrow> string \<Rightarrow> string \<Rightarrow> log_stream \<Rightarrow> tail_state \<Rightarrow> fs \<Rightarrow> unit result \<times> tail_state \<times> fs \<Rightarrow> bool" where
  "drained base p raw s st f out \<longleftrightarrow>
     (case out of (r, st', f') \<Rightarrow>
        r = Inr () \<and> log_ok p f' \<and> same_off_log p f f' \<and> stream_inv base p raw s st' f'
        \<and> (log_full f p \<longrightarrow> log_full f' p) \<and> ts_pos st' = min (length (raw_bytes f raw)) (ts_pos st + MAX_READ_CHUNK)
        \<and> (\<forall>t. t \<noteq> s \<longrightarrow> covers (log_full f' p) (stream_bytes t (history f' p)) (stream_bytes t (history f p))))"

lemma drain_idle:
  assumes ok: "log_ok p f" and inv: "stream_inv base p raw s st f" and "\<not> ts_pos st < length (raw_bytes f raw)"
  shows "drained base p raw s st f (drain_into_events raw s st p now f)"
proof -
  have q: "quiet f" using ok by (simp add: log_ok_def)
  have pos: "ts_pos st = length (raw_bytes f raw)" using assms(3) inv by (simp add: stream_inv_def)
  show ?thesis
  proof (cases "fs_names f raw")
    case None
    then have "drain_into_events raw s st p now f = (Inr (), st, f)"
      using ensure_file_open_quiet [OF q, of st raw] inv by (simp add: drain_into_events_def stream_inv_def)
    with ok inv pos show ?thesis by (simp add: drained_def)
  next
    case (Some i)
    then have "drain_into_events raw s st p now f = (Inr (), st\<lparr>ts_file := Some i\<rparr>, f)"
      using ensure_file_open_quiet [OF q, of st raw] inv pos q
      by (simp add: drain_into_events_def stream_inv_def raw_bytes_def content_def handle_len_def)
    moreover have "stream_inv base p raw s (st\<lparr>ts_file := Some i\<rparr>) f"
      using inv Some by (simp add: stream_inv_def)
    ultimately show ?thesis using ok pos by (simp add: drained_def)
  qed
qed

lemma drain_quiet:
  assumes ok: "log_ok p f" and inv: "stream_inv base p raw s st f"
  shows "drained base p raw s st f (drain_into_events raw s st p now f)"
proof (cases "ts_pos st < length (raw_bytes f raw)")
  case False
  with drain_idle [OF ok inv] show ?thesis .
next
  case True
  have q: "quiet f" using ok by (simp add: log_ok_def)
  obtain i where i: "fs_names f raw = Some i"
    using True by (cases "fs_names f raw") (auto simp: raw_bytes_def content_def)
  have d: "raw_bytes f raw = fs_data f i" using i by (simp add: raw_bytes_def content_def)
  define dat where "dat = take MAX_READ_CHUNK (drop (ts_pos st) (fs_data f i))"
  define c where "c = ts_leftover st @ dat"
  define st' where "st' = \<lparr>ts_pos = ts_pos st + length dat, ts_leftover = snd (split_batch now s c), ts_file = Some i\<rparr>"
  have drain: "drain_into_events raw s st p now f =
      (if fst (split_batch now s c) = [] then (Inr (), st', f)
       else (case append_batch p (fst (split_batch now s c)) f of (r, f') \<Rightarrow> (r, st', f')))"
    using drain_reading [OF q inv i] True d by (simp add: dat_def c_def st'_def Let_def)
  obtain es where es: "fst (split_batch now s c) = encode_events es" "list_all (\<lambda>e. entry_stream e = s) es"
    "list_all (\<lambda>e. length (entry_data e) \<le> length c) es" "concat (map entry_data es) @ snd (split_batch now s c) = c"
    "newline \<notin> set (snd (split_batch now s c))" "length (snd (split_batch now s c)) < MAX_LEFTOVER_BYTES"
    using split_batch_spec [of now s c] by metis
  have st: "list_all storable es"
    using storable_chunk [OF es(3) [unfolded c_def]] inv by (simp add: stream_inv_def dat_def)
  have taken: "take (ts_pos st') (fs_data f i) = take (ts_pos st) (fs_data f i) @ dat"
    by (simp add: st'_def dat_def take_add min_def)
  have pos': "ts_pos st' = min (length (raw_bytes f raw)) (ts_pos st + MAX_READ_CHUNK)"
    using True d by (auto simp: st'_def dat_def min_def)
  have old: "covers (log_full f p) (stream_bytes s (history f p) @ ts_leftover st) (base @ take (ts_pos st) (fs_data f i))"
    using inv d by (simp add: stream_inv_def)
  have keep: "stream_inv base p raw s st' f'" if "same_off_log p f f'"
    "covers (log_full f' p) (stream_bytes s (history f' p) @ snd (split_batch now s c)) ((base @ take (ts_pos st) (fs_data f i)) @ dat)" for f'
    using that inv i pos' es(5,6) raw_bytes_same [OF that(1), of raw] d taken
    by (simp add: stream_inv_def) (simp add: st'_def same_off_log_def)
  show ?thesis
  proof (cases "es = []")
    case True
    then have "covers (log_full f p) (stream_bytes s (history f p) @ snd (split_batch now s c)) ((base @ take (ts_pos st) (fs_data f i)) @ dat)"
      using es(4) covers_append [OF old, of dat] by (simp add: c_def)
    with True es(1) drain keep ok pos' show ?thesis by (simp add: drained_def)
  next
    case False
    then have ne: "fst (split_batch now s c) \<noteq> []" using es(1) by (cases es) simp_all
    from events_log.sink_records [OF ok st es(2) es(4) [unfolded c_def] old]
    show ?thesis using drain ne es(1) keep pos' by (auto simp: drained_def simp flip: c_def)
  qed
qed

section \<open>The loop\<close>

text \<open>
  What the rest of the system does to the files between two passes: the shim extends the raw files
  in place, nobody else writes the log.
\<close>

definition shim_writes :: "log_set \<Rightarrow> (fs \<Rightarrow> fs) \<Rightarrow> bool" where
  "shim_writes ps env \<longleftrightarrow>
     (\<forall>f. log_ok (events_path ps) f \<longrightarrow>
        log_ok (events_path ps) (env f) \<and> (\<forall>k. content (env f) (slot (events_path ps) k) = content f (slot (events_path ps) k))
        \<and> (\<forall>raw\<in>{stdout_path ps, stderr_path ps}.
             (\<forall>i. fs_names f raw = Some i \<longrightarrow> fs_names (env f) raw = Some i)
             \<and> prefix (raw_bytes f raw) (raw_bytes (env f) raw)))"

definition tailer_inv :: "bytes \<Rightarrow> bytes \<Rightarrow> log_set \<Rightarrow> tailer \<Rightarrow> fs \<Rightarrow> bool" where
  "tailer_inv bo be ps t f \<longleftrightarrow>
     log_ok (events_path ps) f
     \<and> stream_inv bo (events_path ps) (stdout_path ps) Stdout (stdout_state t) f
     \<and> stream_inv be (events_path ps) (stderr_path ps) Stderr (stderr_state t) f
     \<and> stdout_errors t = 0 \<and> stderr_errors t = 0"

lemma same_slots:
  assumes "\<And>k. content f' (slot p k) = content f (slot p k)"
  shows "history f' p = history f p" "log_full f' p = log_full f p"
  using assms by (simp_all add: history_def slot_events_def log_full_def cong: map_cong)

lemma stream_inv_env:
  assumes "shim_writes ps env" "log_ok (events_path ps) f" "raw \<in> {stdout_path ps, stderr_path ps}"
    and "stream_inv base (events_path ps) raw s st f"
  shows "stream_inv base (events_path ps) raw s st (env f)"
proof -
  have "prefix (raw_bytes f raw) (raw_bytes (env f) raw)"
    "\<forall>k. content (env f) (slot (events_path ps) k) = content f (slot (events_path ps) k)"
    "\<forall>i. fs_names f raw = Some i \<longrightarrow> fs_names (env f) raw = Some i"
    using assms(1-3) unfolding shim_writes_def by blast+
  with assms(4) same_slots [of "env f" "events_path ps" f] show ?thesis
    by (auto simp: stream_inv_def prefix_def)
qed

lemma tailer_inv_env: "shim_writes ps env \<Longrightarrow> tailer_inv bo be ps t f \<Longrightarrow> tailer_inv bo be ps t (env f)"
  using stream_inv_env unfolding tailer_inv_def by (auto simp: shim_writes_def)

lemma drain_both_quiet:
  assumes "tailer_inv bo be ps t f"
  shows "\<exists>t' f'. drain_both ps now t f = (Inr (), Inr (), t', f') \<and> tailer_inv bo be ps t' f' \<and> same_off_log (events_path ps) f f'
     \<and> ts_pos (stdout_state t') = min (length (raw_bytes f (stdout_path ps))) (ts_pos (stdout_state t) + MAX_READ_CHUNK)
     \<and> ts_pos (stderr_state t') = min (length (raw_bytes f (stderr_path ps))) (ts_pos (stderr_state t) + MAX_READ_CHUNK)"
proof -
  let ?p = "events_path ps"
  note i = assms [unfolded tailer_inv_def]
  obtain r1 s1 f1 where d1: "drain_into_events (stdout_path ps) Stdout (stdout_state t) ?p now f = (r1, s1, f1)"
    by (metis surj_pair)
  have one: "drained bo ?p (stdout_path ps) Stdout (stdout_state t) f (r1, s1, f1)"
    using drain_quiet [of ?p f bo "stdout_path ps" Stdout "stdout_state t" now] i d1 by simp
  have inv1: "stream_inv be ?p (stderr_path ps) Stderr (stderr_state t) f1"
    using one i by (auto simp: drained_def intro: stream_inv_other)
  obtain r2 s2 f2 where d2: "drain_into_events (stderr_path ps) Stderr (stderr_state t) ?p now f1 = (r2, s2, f2)"
    by (metis surj_pair)
  have two: "drained be ?p (stderr_path ps) Stderr (stderr_state t) f1 (r2, s2, f2)"
    using drain_quiet [OF _ inv1, of now] one d2 by (simp add: drained_def)
  have "stream_inv bo ?p (stdout_path ps) Stdout s1 f2"
    using one two by (auto simp: drained_def intro: stream_inv_other)
  moreover have "raw_bytes f1 (stderr_path ps) = raw_bytes f (stderr_path ps)"
    using one i by (auto simp: drained_def stream_inv_def intro: raw_bytes_same)
  ultimately show ?thesis
    using one two i same_off_log_trans by (auto simp: drain_both_def d1 d2 drained_def tailer_inv_def)
qed

lemma tailer_loop_inv:
  assumes "tailer_inv bo be ps t f" and "\<forall>r\<in>set rs. shim_writes ps (rd_env r) \<and> shim_writes ps (rd_final_env r)"
  shows "case tailer_loop ps rs t f of (e, t', f') \<Rightarrow> e \<noteq> Gave_up \<and> tailer_inv bo be ps t' f'"
  using assms
proof (induction rs arbitrary: t f)
  case Nil
  then show ?case by simp
next
  case (Cons r rs)
  have env: "tailer_inv bo be ps t (rd_env r f)"
    using Cons.prems tailer_inv_env by simp
  obtain t1 f1 where d: "drain_both ps (rd_now r) t (rd_env r f) = (Inr (), Inr (), t1, f1)" "tailer_inv bo be ps t1 f1"
    using drain_both_quiet [OF env] by blast
  have t1: "t1\<lparr>stdout_errors := 0, stderr_errors := 0\<rparr> = t1"
    using d(2) by (simp add: tailer_inv_def)
  have fin: "tailer_inv bo be ps t1 (rd_final_env r f1)"
    using Cons.prems tailer_inv_env d(2) by simp
  show ?case
  proof (cases "rd_wake r")
    case Slept
    with Cons.IH [OF d(2)] Cons.prems d t1 show ?thesis
      by (simp add: count_error_def MAX_CONSECUTIVE_ERRORS_def)
  next
    case Stop_signal
    with drain_both_quiet [OF fin, of "rd_now r"] d t1 show ?thesis
      by (auto simp: count_error_def MAX_CONSECUTIVE_ERRORS_def)
  qed
qed

section \<open>Giving up\<close>

text \<open>A stream whose pass fails in every round: the loop ends after exactly the allowed number of rounds.\<close>

fun fails_throughout :: "log_set \<Rightarrow> round list \<Rightarrow> tailer \<Rightarrow> fs \<Rightarrow> bool" where
  "fails_throughout ps [] t f = True"
| "fails_throughout ps (r # rs) t f =
     (case drain_both ps (rd_now r) t (rd_env r f) of (r1, r2, t1, f1) \<Rightarrow>
        rd_wake r = Slept \<and> isl r1
        \<and> fails_throughout ps rs (t1\<lparr>stdout_errors := count_error r1 (stdout_errors t1),
                                      stderr_errors := count_error r2 (stderr_errors t1)\<rparr>) f1)"

lemma drain_both_counts:
  "drain_both ps now t f = (r1, r2, t1, f1) \<Longrightarrow> stdout_errors t1 = stdout_errors t \<and> stderr_errors t1 = stderr_errors t"
  by (auto simp: drain_both_def split: prod.splits)

lemma tailer_loop_step:
  assumes "drain_both ps (rd_now r) t (rd_env r f) = (r1, r2, t1, f1)"
    and "t2 = t1\<lparr>stdout_errors := count_error r1 (stdout_errors t1), stderr_errors := count_error r2 (stderr_errors t1)\<rparr>"
  shows "tailer_loop ps (r # rs) t f =
    (if stdout_errors t2 \<ge> MAX_CONSECUTIVE_ERRORS \<or> stderr_errors t2 \<ge> MAX_CONSECUTIVE_ERRORS then (Gave_up, t2, f1)
     else (case rd_wake r of Slept \<Rightarrow> tailer_loop ps rs t2 f1
       | Stop_signal \<Rightarrow> (let (_, _, t3, f3) = drain_both ps (rd_now r) t2 (rd_final_env r f1) in (Stopped, t3, f3))))"
  by (simp only: tailer_loop.simps assms Let_def case_prod_conv)

lemma tailer_gives_up:
  assumes "fails_throughout ps rs t f" and "MAX_CONSECUTIVE_ERRORS \<le> stdout_errors t + length rs" and "rs \<noteq> []"
  shows "fst (tailer_loop ps rs t f) = Gave_up"
  using assms
proof (induction rs arbitrary: t f)
  case (Cons r rs)
  obtain r1 r2 t1 f1 where d: "drain_both ps (rd_now r) t (rd_env r f) = (r1, r2, t1, f1)"
    by (metis prod_cases4)
  define t2 where "t2 = t1\<lparr>stdout_errors := count_error r1 (stdout_errors t1), stderr_errors := count_error r2 (stderr_errors t1)\<rparr>"
  have f: "rd_wake r = Slept" "isl r1" "fails_throughout ps rs t2 f1"
    using Cons.prems(1) d by (simp_all add: t2_def)
  then have n: "stdout_errors t2 = Suc (stdout_errors t)"
    using drain_both_counts [OF d] by (auto simp: t2_def count_error_def isl_def)
  have loop: "tailer_loop ps (r # rs) t f =
      (if stdout_errors t2 \<ge> MAX_CONSECUTIVE_ERRORS \<or> stderr_errors t2 \<ge> MAX_CONSECUTIVE_ERRORS
       then (Gave_up, t2, f1) else tailer_loop ps rs t2 f1)"
    using f(1) tailer_loop_step [OF d t2_def] by simp
  show ?case
  proof (cases "rs = []")
    case True
    with Cons.prems(2) n have "stdout_errors t2 \<ge> MAX_CONSECUTIVE_ERRORS" by simp
    with loop show ?thesis by simp
  next
    case False
    with Cons.IH [OF f(3)] Cons.prems(2) n loop show ?thesis by simp
  qed
qed simp

text \<open>It never gives up earlier.\<close>

lemma tailer_gave_up_late:
  assumes "fst (tailer_loop ps rs t f) = Gave_up" and "stdout_errors t \<le> n" "stderr_errors t \<le> n"
  shows "MAX_CONSECUTIVE_ERRORS \<le> n + length rs"
  using assms
proof (induction rs arbitrary: t f n)
  case (Cons r rs)
  obtain r1 r2 t1 f1 where d: "drain_both ps (rd_now r) t (rd_env r f) = (r1, r2, t1, f1)"
    by (metis prod_cases4)
  define t2 where "t2 = t1\<lparr>stdout_errors := count_error r1 (stdout_errors t1), stderr_errors := count_error r2 (stderr_errors t1)\<rparr>"
  have n: "stdout_errors t2 \<le> Suc n" "stderr_errors t2 \<le> Suc n"
    using drain_both_counts [OF d] Cons.prems(2,3) by (auto simp: t2_def count_error_def split: sum.split)
  show ?case
  proof (cases "stdout_errors t2 \<ge> MAX_CONSECUTIVE_ERRORS \<or> stderr_errors t2 \<ge> MAX_CONSECUTIVE_ERRORS")
    case True
    with n show ?thesis by auto
  next
    case False
    with Cons.prems(1) d have "rd_wake r = Slept" "fst (tailer_loop ps rs t2 f1) = Gave_up"
      using tailer_loop_step [OF d t2_def, of rs]
      by (cases "rd_wake r"; auto split: prod.splits)+
    with Cons.IH [OF _ n] show ?thesis by simp
  qed
qed simp

section \<open>A container's files\<close>

text \<open>The shim appending to a file that exists.\<close>

definition shim_append :: "string \<Rightarrow> bytes \<Rightarrow> fs \<Rightarrow> fs" where
  "shim_append raw b f = (case fs_names f raw of None \<Rightarrow> f | Some i \<Rightarrow> snd (handle_append i b f))"

lemma log_ok_same_slots:
  assumes "log_ok p f" "fs_ok f'" "quiet f'" "\<And>k. content f' (slot p k) = content f (slot p k)"
  shows "log_ok p f'" "history f' p = history f p"
  using assms by (simp_all add: log_ok_def clean_log_def gap_free_def history_def slot_events_def cong: map_cong)

lemma shim_writes_append:
  assumes "raw \<in> {stdout_path ps, stderr_path ps}" "\<And>k. raw \<noteq> slot (events_path ps) k"
  shows "shim_writes ps (shim_append raw b)"
  unfolding shim_writes_def
proof (intro allI impI)
  fix f assume ok: "log_ok (events_path ps) f"
  let ?g = "shim_append raw b f"
  have f: "fs_ok f" "quiet f" using ok by (simp_all add: log_ok_def)
  have g: "fs_ok ?g" "quiet ?g" "fs_names ?g = fs_names f"
    using f by (auto simp: shim_append_def handle_append_def split: option.split)
  have cont: "content ?g q = (if q = raw then map_option (\<lambda>d. d @ b) (content f raw) else content f q)" for q
    using f by (cases "fs_names f raw")
      (auto simp: shim_append_def handle_append_def content_append, auto simp: content_def)
  have same: "content ?g (slot (events_path ps) k) = content f (slot (events_path ps) k)" for k
    using cont assms(2) [of k] by (simp add: neq_commute)
  from log_ok_same_slots(1) [OF ok g(1,2) same] same g(3) cont show "log_ok (events_path ps) ?g
      \<and> (\<forall>k. content ?g (slot (events_path ps) k) = content f (slot (events_path ps) k))
      \<and> (\<forall>raw\<in>{stdout_path ps, stderr_path ps}. (\<forall>i. fs_names f raw = Some i \<longrightarrow> fs_names ?g raw = Some i)
          \<and> prefix (raw_bytes f raw) (raw_bytes ?g raw))"
    by (auto simp: raw_bytes_def split: option.split)
qed

lemma shim_writes_id [simp]: "shim_writes ps id"
  by (simp add: shim_writes_def)

lemma fs_write_quiet:
  assumes "fs_ok f" "quiet f"
  obtains f' where "fs_write q b f = (Inr (), f')" "fs_ok f'" "quiet f'"
    "\<And>r. content f' r = (if r = q then Some b else content f r)"
proof -
  define g where "g = (if fs_names f q = None then create_empty q f else f)"
  obtain i where i: "fs_names g q = Some i" by (cases "fs_names f q") (auto simp: g_def create_empty_def)
  have g: "fs_ok g" "quiet g" "\<And>r. r \<noteq> q \<Longrightarrow> content g r = content f r" using assms by (auto simp: g_def)
  show thesis
    using that [of "g\<lparr>fs_data := (fs_data g)(i := b)\<rparr>"] content_append [OF g(1) i, of b] g i assms(2)
    by (simp add: fs_write_def Let_def flip: g_def)
qed

text \<open>The paths of a valid container are what they should be, and apart.\<close>

definition container_paths :: "string \<Rightarrow> string \<Rightarrow> log_set" where
  "container_paths h c =
     (let dir = logs_root h @ CHR ''/'' # c
      in \<lparr>stdout_path = dir @ ''/stdout'', stderr_path = dir @ ''/stderr'', events_path = dir @ ''/events.log''\<rparr>)"

lemma container_paths_apart:
  "is_events_path (events_path (container_paths h c))"
  "stdout_path (container_paths h c) \<noteq> slot (events_path (container_paths h c)) k"
  "stderr_path (container_paths h c) \<noteq> slot (events_path (container_paths h c)) k"
  "stdout_path (container_paths h c) \<noteq> stderr_path (container_paths h c)"
proof -
  let ?d = "logs_root h @ CHR ''/'' # c"
  show ev: "is_events_path (events_path (container_paths h c))"
    unfolding is_events_path_def container_paths_def Let_def by (intro exI [of _ ?d]) simp
  show "stdout_path (container_paths h c) \<noteq> slot (events_path (container_paths h c)) k"
    "stderr_path (container_paths h c) \<noteq> slot (events_path (container_paths h c)) k"
    using slot_eq [OF ev, of k] by (cases k; simp add: container_paths_def)+
  show "stdout_path (container_paths h c) \<noteq> stderr_path (container_paths h c)"
    by (simp add: container_paths_def)
qed

lemma tailer_start_valid: "validate_identifier c = Inr () \<Longrightarrow> tailer_start (Some h) c = Inr (container_paths h c)"
  by (simp add: tailer_start_def log_paths_valid events_path_valid container_paths_def)

lemma prepare_log_files_log:
  assumes c: "validate_identifier c = Inr ()" and ok: "log_ok (events_path ps) f" and ps: "ps = container_paths h c"
  obtains f' where "prepare_log_files (Some h) c f = (Inr (stdout_path ps, stderr_path ps), f')"
    "log_ok (events_path ps) f'" "history f' (events_path ps) = history f (events_path ps)"
    "content f' (stdout_path ps) = Some []" "content f' (stderr_path ps) = Some []"
proof -
  have f: "fs_ok f" "quiet f" using ok by (simp_all add: log_ok_def)
  have paths: "log_paths_for (Some h) c = Inr (stdout_path ps, stderr_path ps)"
    using log_paths_valid [OF c] by (simp add: ps container_paths_def)
  obtain f1 where f1: "fs_write (stdout_path ps) [] f = (Inr (), f1)" "fs_ok f1" "quiet f1"
    "\<And>r. content f1 r = (if r = stdout_path ps then Some [] else content f r)"
    using fs_write_quiet [OF f] by blast
  obtain f2 where f2: "fs_write (stderr_path ps) [] f1 = (Inr (), f2)" "fs_ok f2" "quiet f2"
    "\<And>r. content f2 r = (if r = stderr_path ps then Some [] else content f1 r)"
    using fs_write_quiet [OF f1(2,3)] by blast
  have slots: "content f2 (slot (events_path ps) k) = content f (slot (events_path ps) k)" for k
    using f1(4) f2(4) container_paths_apart(2,3) [of h c k] by (simp add: ps neq_commute)
  have "prepare_log_files (Some h) c f = (Inr (stdout_path ps, stderr_path ps), f2)"
    using f1 f2 f(2) by (simp add: prepare_log_files_def paths fs_create_dir_all_def io_err_def)
  with that log_ok_same_slots [OF ok f2(2,3) slots] f1(4) f2(4) container_paths_apart(4) [of h c]
  show thesis by (simp add: ps)
qed

lemma tailer_inv_start:
  assumes "log_ok (events_path ps) f" "content f (stdout_path ps) = Some []" "content f (stderr_path ps) = Some []"
    and "ps = container_paths h c"
  shows "tailer_inv (stream_bytes Stdout (history f (events_path ps))) (stream_bytes Stderr (history f (events_path ps)))
    ps tailer_default f"
  using assms container_paths_apart [of h c]
  by (simp add: tailer_inv_def stream_inv_def tailer_default_def tail_default_def off_log_def MAX_LEFTOVER_BYTES_def)

lemma log_ok_empty: "log_ok (events_path (container_paths h c)) empty_fs"
  using container_paths_apart(1) by (auto simp: log_ok_def clean_log_def gap_free_def intro: exI [of _ "[]"])

section \<open>Properties\<close>





end
