(* ===== verification/Messages.thy ===== *)
theory Messages
  imports Log_Tailer "HOL-Library.AList"
begin

text \<open>
  The data the crate exchanges with its surroundings: containerd's messages, the OCI runtime
  specification and image configuration, JSON values, and the record \<open>platform\<close> of everything outside
  the repository that the code calls. A field of \<open>platform\<close> is one remote procedure, one library
  function or one source of time, names and ports; its implementation is not part of this
  development, and what a property relies on is stated as a hypothesis about the field.

  A \<^verbatim>\<open>HashMap\<close> is an association list with distinct keys; its order stands for the order in which the
  source happens to iterate. A remote procedure takes the namespace header first and acts on the
  state of the daemon.
\<close>

section \<open>Maps\<close>

type_synonym labels = "(string \<times> string) list"

definition hm_insert :: "'k \<Rightarrow> 'v \<Rightarrow> ('k \<times> 'v) list \<Rightarrow> ('k \<times> 'v) list" where
  "hm_insert k v m = AList.update k v m"

definition hm_extend :: "('k \<times> 'v) list \<Rightarrow> ('k \<times> 'v) list \<Rightarrow> ('k \<times> 'v) list" where
  "hm_extend m kvs = fold (\<lambda>(k, v) acc. hm_insert k v acc) kvs m"

lemma map_of_hm_insert [simp]: "map_of (hm_insert k v m) = (map_of m)(k \<mapsto> v)"
  by (simp add: hm_insert_def update_conv')

lemma distinct_hm_insert [simp]: "distinct (map fst m) \<Longrightarrow> distinct (map fst (hm_insert k v m))"
  by (simp add: hm_insert_def distinct_update)

lemma hm_extend_simps [simp]:
  "hm_extend m [] = m" "hm_extend m ((k, v) # kvs) = hm_extend (hm_insert k v m) kvs"
  by (simp_all add: hm_extend_def)

lemma hm_extend_append: "hm_extend m (as @ bs) = hm_extend (hm_extend m as) bs"
  by (simp add: hm_extend_def)

lemma distinct_hm_extend [simp]: "distinct (map fst m) \<Longrightarrow> distinct (map fst (hm_extend m kvs))"
  by (induction kvs arbitrary: m) auto

text \<open>The last insertion of a key wins; a key that is not inserted keeps its value.\<close>

lemma map_of_hm_extend: "map_of (hm_extend m kvs) = map_of m ++ map_of (rev kvs)"
  by (induction kvs arbitrary: m) (auto simp: map_add_def fun_eq_iff split: option.split)

lemma map_of_rev_distinct: "distinct (map fst kvs) \<Longrightarrow> map_of (rev kvs) = map_of kvs"
  by (metis map_of_eqI map_of_inject_set rev_map set_rev distinct_rev)

lemma map_of_hm_extend_distinct:
  "distinct (map fst kvs) \<Longrightarrow> map_of (hm_extend m kvs) = map_of m ++ map_of kvs"
  by (simp add: map_of_hm_extend map_of_rev_distinct)

lemma hm_extend_notin: "k \<notin> fst ` set kvs \<Longrightarrow> map_of (hm_extend m kvs) k = map_of m k"
  by (induction kvs arbitrary: m) auto

section \<open>containerd\<close>

record any_msg =
  type_url :: string
  any_value :: bytes

record container_msg =
  cm_id :: string
  cm_image :: string
  cm_runtime :: "string option"
  cm_spec :: "any_msg option"
  cm_snapshotter :: string
  cm_snapshot_key :: string
  cm_labels :: labels

record process_msg =
  pm_container_id :: string
  pm_pid :: u32
  pm_status :: int
  pm_exit_status :: u32

record snapshot_msg =
  sm_name :: string
  sm_parent :: string
  sm_labels :: labels
  sm_created_at :: "(int \<times> int) option"

text \<open>A mount is passed from the snapshotter to the task service unopened.\<close>

type_synonym mount_msg = bytes

record create_task_msg =
  ct_container_id :: string
  ct_rootfs :: "mount_msg list"
  ct_stdin :: string
  ct_stdout :: string
  ct_stderr :: string
  ct_terminal :: bool

record exec_msg =
  em_container_id :: string
  em_exec_id :: string
  em_stdin :: string
  em_stdout :: string
  em_stderr :: string
  em_terminal :: bool
  em_spec :: "any_msg option"

text \<open>An image record and the digest of its target, when it has one.\<close>

record image_msg =
  im_name :: string
  im_target :: "string option"

record transfer_msg =
  tm_reference :: string
  tm_store_name :: string
  tm_snapshotter :: string
  tm_os :: string
  tm_architecture :: string

section \<open>OCI\<close>

datatype capability =
  Cap_Chown | Cap_DacOverride | Cap_Fsetid | Cap_Fowner | Cap_Mknod | Cap_NetRaw | Cap_Setgid
| Cap_Setuid | Cap_Setfcap | Cap_Setpcap | Cap_NetBindService | Cap_SysChroot | Cap_Kill | Cap_AuditWrite

record linux_capabilities =
  lc_bounding :: "capability list"
  lc_effective :: "capability list"
  lc_inheritable :: "capability list"
  lc_permitted :: "capability list"
  lc_ambient :: "capability list"

datatype linux_namespace_type = Ns_Pid | Ns_Network | Ns_Ipc | Ns_Uts | Ns_Mount | Ns_User | Ns_Cgroup | Ns_Time

record oci_mount =
  om_source :: "string option"
  om_destination :: string
  om_typ :: "string option"
  om_options :: "string list option"

record oci_process =
  op_terminal :: bool
  op_args :: "string list"
  op_env :: "string list option"
  op_cwd :: string
  op_capabilities :: "linux_capabilities option"

record hook =
  hk_path :: string
  hk_args :: "string list"
  hk_env :: "string list"

record hooks =
  hs_prestart :: "hook list"
  hs_poststart :: "hook list"
  hs_poststop :: "hook list"

record oci_spec =
  os_version :: string
  os_process :: "oci_process option"
  os_root_path :: string
  os_root_readonly :: bool
  os_namespaces :: "linux_namespace_type list"
  os_mounts :: "oci_mount list option"
  os_hooks :: "hooks option"

record image_config =
  ic_labels :: "labels option"
  ic_entrypoint :: "string list option"
  ic_cmd :: "string list option"
  ic_working_dir :: "string option"
  ic_env :: "string list option"

record image_configuration =
  ig_config :: "image_config option"
  ig_diff_ids :: "string list"

record image_metadata =
  md_chain_id :: string
  md_config :: image_configuration
  md_raw_config :: bytes

section \<open>JSON\<close>

datatype json =
  JNull | JBool bool | JNumber int | JFloat string | JString string | JArray "json list" | JObject "(string \<times> json) list"

definition json_get :: "string \<Rightarrow> json \<Rightarrow> json option" where
  "json_get k v = (case v of JObject kvs \<Rightarrow> map_of kvs k | _ \<Rightarrow> None)"

definition json_as_str :: "json \<Rightarrow> string option" where
  "json_as_str v = (case v of JString s \<Rightarrow> Some s | _ \<Rightarrow> None)"

definition json_as_array :: "json \<Rightarrow> json list option" where
  "json_as_array v = (case v of JArray vs \<Rightarrow> Some vs | _ \<Rightarrow> None)"

text \<open>\<^verbatim>\<open>Value::as_u64\<close>: an integer in range; a float is not one.\<close>

definition json_as_u64 :: "json \<Rightarrow> nat option" where
  "json_as_u64 v = (case v of JNumber n \<Rightarrow> if 0 \<le> n \<and> n < 2 ^ 64 then Some (nat n) else None | _ \<Rightarrow> None)"

section \<open>The platform\<close>

type_synonym ('d, 'a) rpc = "'d \<Rightarrow> (status + 'a) \<times> 'd"

text \<open>The ways in which setting up a listening socket fails: binding, making it non-blocking, handing it to the runtime.\<close>

datatype listen_error = Bind_Failed string | Nonblocking_Failed string | Listener_Failed string

text \<open>The ways in which finding an ephemeral port fails: binding, and reading the address of the socket.\<close>

datatype ephemeral_error = Ephemeral_Bind string | Ephemeral_Addr string

record 'd platform =
  containers_get :: "string \<Rightarrow> string \<Rightarrow> ('d, container_msg option) rpc"
  containers_list :: "string \<Rightarrow> string list \<Rightarrow> ('d, container_msg list) rpc"
  containers_create :: "string \<Rightarrow> container_msg \<Rightarrow> ('d, unit) rpc"
  containers_delete :: "string \<Rightarrow> string \<Rightarrow> ('d, unit) rpc"
  snapshots_mounts :: "string \<Rightarrow> string \<Rightarrow> string \<Rightarrow> ('d, mount_msg list) rpc"
  snapshots_prepare :: "string \<Rightarrow> string \<Rightarrow> string \<Rightarrow> string \<Rightarrow> labels \<Rightarrow> ('d, unit) rpc"
  snapshots_commit :: "string \<Rightarrow> string \<Rightarrow> string \<Rightarrow> string \<Rightarrow> labels \<Rightarrow> ('d, unit) rpc"
  snapshots_remove :: "string \<Rightarrow> string \<Rightarrow> string \<Rightarrow> ('d, unit) rpc"
  snapshots_stat :: "string \<Rightarrow> string \<Rightarrow> string \<Rightarrow> ('d, snapshot_msg option) rpc"
  snapshots_list :: "string \<Rightarrow> string \<Rightarrow> string list \<Rightarrow> ('d, (status + snapshot_msg list) list) rpc"
  tasks_create :: "string \<Rightarrow> create_task_msg \<Rightarrow> ('d, u32) rpc"
  tasks_start :: "string \<Rightarrow> string \<Rightarrow> string \<Rightarrow> ('d, unit) rpc"
  tasks_kill :: "string \<Rightarrow> string \<Rightarrow> string \<Rightarrow> u32 \<Rightarrow> bool \<Rightarrow> ('d, unit) rpc"
  tasks_delete :: "string \<Rightarrow> string \<Rightarrow> ('d, unit) rpc"
  tasks_get :: "string \<Rightarrow> string \<Rightarrow> string \<Rightarrow> ('d, process_msg option) rpc"
  tasks_list :: "string \<Rightarrow> string \<Rightarrow> ('d, process_msg list) rpc"
  tasks_pause :: "string \<Rightarrow> string \<Rightarrow> ('d, unit) rpc"
  tasks_resume :: "string \<Rightarrow> string \<Rightarrow> ('d, unit) rpc"
  tasks_exec :: "string \<Rightarrow> exec_msg \<Rightarrow> ('d, unit) rpc"
  tasks_wait :: "string \<Rightarrow> string \<Rightarrow> string \<Rightarrow> ('d, u32) rpc"
  tasks_delete_process :: "string \<Rightarrow> string \<Rightarrow> string \<Rightarrow> ('d, unit) rpc"
  images_get :: "string \<Rightarrow> string \<Rightarrow> ('d, image_msg option) rpc"
  content_read :: "string \<Rightarrow> string \<Rightarrow> ('d, (status + bytes) list) rpc"
  transfer :: "string \<Rightarrow> transfer_msg \<Rightarrow> ('d, unit) rpc"
  server_version_rpc :: "('d, string) rpc"
  now :: "'d \<Rightarrow> instant"
  system_now :: "'d \<Rightarrow> system_time"
  sleep :: "duration \<Rightarrow> 'd \<Rightarrow> 'd"
  uuid_v4 :: "'d \<Rightarrow> string \<times> 'd"
  rng_choose :: "u8 list \<Rightarrow> 'd \<Rightarrow> u8 option \<times> 'd"
  ephemeral_port :: "'d \<Rightarrow> (ephemeral_error + u16) \<times> 'd"
  bind_port :: "u16 \<Rightarrow> 'd \<Rightarrow> (listen_error + unit) \<times> 'd"
  status_created :: int
  status_running :: int
  status_stopped :: int
  status_paused :: int
  status_pausing :: int
  json_parse :: "bytes \<Rightarrow> string + json"
  parse_image_configuration :: "bytes \<Rightarrow> string + image_configuration"
  spec_to_json :: "oci_spec \<Rightarrow> bytes"
  spec_of_json :: "bytes \<Rightarrow> oci_spec option"
  process_to_json :: "oci_process \<Rightarrow> bytes"
  spec_default :: oci_spec
  default_namespaces :: "linux_namespace_type list"
  sha256_hex :: "bytes \<Rightarrow> string"
  metadata_value_ok :: "string \<Rightarrow> bool"
  target_arch :: string
  home_dir :: "string option"
  process_id :: nat

end
