(* ===== verification/World.thy ===== *)
theory World
  imports Messages
begin

text \<open>
  The state an operation acts on, and how operations compose.

  \<open>world\<close> holds the daemon, the files and the state that all clones of a \<^verbatim>\<open>Client\<close> share
  (src/src/client.rs): managed port forwards, managed tailers, cached image metadata and task start
  times. A client itself is its namespace. An operation that cannot loop is a function from a world
  to a result and a world (\<open>op\<close>); one that polls returns an option, \<open>None\<close> when it never returns
  (\<open>prog\<close>). \<open>poll_until\<close> (src/src/util.rs) is defined as such a partial function and shown to return
  on every platform whose clock moves.
\<close>

section \<open>State\<close>

text \<open>A port-forward handle with its background task, of which the target is kept.\<close>

record handle =
  h_container_id :: string
  h_host_port :: u16
  h_container_port :: u16
  h_target :: string

record 'd world =
  daemon :: 'd
  managed_handles :: "handle list"
  managed_tailers :: "string \<rightharpoonup> log_set \<times> tailer"
  image_metadata_cache :: "string \<rightharpoonup> image_metadata"
  task_start_times :: "string \<rightharpoonup> instant"
  files :: fs
  exec_counter :: u64

type_synonym ('d, 'a) op = "'d world \<Rightarrow> 'a result \<times> 'd world"
type_synonym ('d, 'a) prog = "'d world \<Rightarrow> ('a result \<times> 'd world) option"

section \<open>Composition\<close>

definition ret :: "'a \<Rightarrow> ('d, 'a) op" where
  "ret x w = (Inr x, w)"

definition fail :: "error \<Rightarrow> ('d, 'a) op" where
  "fail e w = (Inl e, w)"

definition from_result :: "'a result \<Rightarrow> ('d, 'a) op" where
  "from_result r w = (r, w)"

text \<open>The question-mark operator.\<close>

definition bind :: "('d, 'a) op \<Rightarrow> ('a \<Rightarrow> ('d, 'b) op) \<Rightarrow> ('d, 'b) op" where
  "bind m k w = (case m w of (Inl e, w') \<Rightarrow> (Inl e, w') | (Inr x, w') \<Rightarrow> k x w')"

text \<open>Running an operation and keeping its result as a value.\<close>

definition try_op :: "('d, 'a) op \<Rightarrow> ('a result \<Rightarrow> ('d, 'b) op) \<Rightarrow> ('d, 'b) op" where
  "try_op m k w = (case m w of (r, w') \<Rightarrow> k r w')"

definition rpc_call :: "('d, 'a) rpc \<Rightarrow> 'd world \<Rightarrow> (status + 'a) \<times> 'd world" where
  "rpc_call f w = (case f (daemon w) of (r, d) \<Rightarrow> (r, w\<lparr>daemon := d\<rparr>))"

text \<open>A remote call whose status is mapped to an error, and one whose status the code inspects.\<close>

definition call :: "('d, 'a) rpc \<Rightarrow> (status \<Rightarrow> error) \<Rightarrow> ('d, 'a) op" where
  "call f g w = (case rpc_call f w of (Inl s, w') \<Rightarrow> (Inl (g s), w') | (Inr x, w') \<Rightarrow> (Inr x, w'))"

definition call_raw :: "('d, 'a) rpc \<Rightarrow> ((status + 'a) \<Rightarrow> ('d, 'b) op) \<Rightarrow> ('d, 'b) op" where
  "call_raw f k w = (case rpc_call f w of (r, w') \<Rightarrow> k r w')"

definition with_daemon :: "('d \<Rightarrow> 'a \<times> 'd) \<Rightarrow> ('a \<Rightarrow> ('d, 'b) op) \<Rightarrow> ('d, 'b) op" where
  "with_daemon f k w = (case f (daemon w) of (x, d) \<Rightarrow> k x (w\<lparr>daemon := d\<rparr>))"

definition with_files :: "(fs \<Rightarrow> 'a result \<times> fs) \<Rightarrow> ('d, 'a) op" where
  "with_files f w = (case f (files w) of (r, fl) \<Rightarrow> (r, w\<lparr>files := fl\<rparr>))"

definition p_lift :: "('d, 'a) op \<Rightarrow> ('d, 'a) prog" where
  "p_lift m w = Some (m w)"

definition p_bind :: "('d, 'a) prog \<Rightarrow> ('a \<Rightarrow> ('d, 'b) prog) \<Rightarrow> ('d, 'b) prog" where
  "p_bind m k w = (case m w of None \<Rightarrow> None | Some (Inl e, w') \<Rightarrow> Some (Inl e, w') | Some (Inr x, w') \<Rightarrow> k x w')"

definition p_try :: "('d, 'a) prog \<Rightarrow> ('a result \<Rightarrow> ('d, 'b) prog) \<Rightarrow> ('d, 'b) prog" where
  "p_try m k w = (case m w of None \<Rightarrow> None | Some (r, w') \<Rightarrow> k r w')"

named_theorems op_simps \<open>evaluation rules for operations\<close>

lemmas op_defs = ret_def fail_def from_result_def bind_def try_op_def call_def call_raw_def with_daemon_def
  with_files_def rpc_call_def

lemma ret_apply [simp, op_simps]: "ret x w = (Inr x, w)" and fail_apply [simp, op_simps]: "fail e w = (Inl e, w)"
  and from_result_apply [simp, op_simps]: "from_result r w = (r, w)"
  by (simp_all add: op_defs)

lemma bind_Inl [simp, op_simps]: "m w = (Inl e, w') \<Longrightarrow> bind m k w = (Inl e, w')"
  and bind_Inr [simp, op_simps]: "m w = (Inr x, w') \<Longrightarrow> bind m k w = k x w'"
  by (simp_all add: bind_def)

lemma p_bind_Inl [simp, op_simps]: "m w = Some (Inl e, w') \<Longrightarrow> p_bind m k w = Some (Inl e, w')"
  and p_bind_Inr [simp, op_simps]: "m w = Some (Inr x, w') \<Longrightarrow> p_bind m k w = k x w'"
  and p_try_Some [simp, op_simps]: "m w = Some (r, w') \<Longrightarrow> p_try m k2 w = k2 r w'"
  by (simp_all add: p_bind_def p_try_def)

lemma p_lift_apply [simp, op_simps]: "p_lift m w = Some (m w)"
  by (simp add: p_lift_def)

lemma bind_assoc: "bind (bind m k) l = bind m (\<lambda>x. bind (k x) l)"
  by (auto simp: bind_def fun_eq_iff split: prod.split sum.split)

lemma bind_ret: "bind (ret x) k = k x"
  by (simp add: bind_def fun_eq_iff)

lemma p_tryE:
  assumes "p_try m k w = Some y"
  obtains r v where "m w = Some (r, v)" "k r v = Some y"
  using assms by (cases "m w") (auto simp: p_try_def)

lemma p_bindE:
  assumes "p_bind m k w = Some (Inr x, w')"
  obtains a v where "m w = Some (Inr a, v)" "k a v = Some (Inr x, w')"
  using assms by (auto simp: p_bind_def split: option.splits sum.splits prod.splits)

lemma bindE:
  assumes "bind m k w = (Inr x, w')"
  obtains a v where "m w = (Inr a, v)" "k a v = (Inr x, w')"
  using assms by (auto simp: bind_def split: sum.splits prod.splits)

lemma callE:
  assumes "call f g w = (Inr x, w')"
  obtains d where "f (daemon w) = (Inr x, d)" "w' = w\<lparr>daemon := d\<rparr>"
  using assms by (auto simp: call_def rpc_call_def split: sum.splits prod.splits)

section \<open>Polling\<close>

text \<open>\<^verbatim>\<open>Instant::elapsed\<close> saturates at zero.\<close>

definition elapsed :: "'d platform \<Rightarrow> instant \<Rightarrow> 'd world \<Rightarrow> duration" where
  "elapsed P start w = now P (daemon w) - start"

definition sleep_op :: "'d platform \<Rightarrow> duration \<Rightarrow> 'd world \<Rightarrow> 'd world" where
  "sleep_op P d w = w\<lparr>daemon := sleep P d (daemon w)\<rparr>"

partial_function (option) poll_until ::
  "'d platform \<Rightarrow> instant \<Rightarrow> duration \<Rightarrow> duration \<Rightarrow> string \<Rightarrow> ('d world \<Rightarrow> bool \<times> 'd world)
     \<Rightarrow> 'd world \<Rightarrow> (unit result \<times> 'd world) option" where
  [code]: "poll_until P start timeout interval timeout_msg predicate w =
     (if elapsed P start w > timeout then Some (Inl (Timeout timeout_msg), w)
      else (case predicate w of (b, w') \<Rightarrow>
         if b then Some (Inr (), w')
         else poll_until P start timeout interval timeout_msg predicate (sleep_op P interval w')))"

text \<open>
  The other loops of the crate that sleep between rounds: a round either ends the loop with a result
  or asks for another one after \<open>interval\<close>.
\<close>

partial_function (option) retry_loop ::
  "'d platform \<Rightarrow> duration \<Rightarrow> ('d world \<Rightarrow> 'a result option \<times> 'd world) \<Rightarrow> ('d, 'a) prog" where
  [code]: "retry_loop P interval body w =
     (case body w of (q, w') \<Rightarrow>
        (case q of Some r \<Rightarrow> Some (r, w') | None \<Rightarrow> retry_loop P interval body (sleep_op P interval w')))"

section \<open>Time\<close>

text \<open>
  What the code relies on of the clock: sleeping lets at least the requested time pass, and no
  call turns the clock back.
\<close>

definition clock_sleeps :: "'d platform \<Rightarrow> bool" where
  "clock_sleeps P \<longleftrightarrow> (\<forall>d s. now P s + d \<le> now P (sleep P d s))"

definition steady :: "'d platform \<Rightarrow> ('d world \<Rightarrow> 'a \<times> 'd world) \<Rightarrow> bool" where
  "steady P f \<longleftrightarrow> (\<forall>w. now P (daemon w) \<le> now P (daemon (snd (f w))))"

lemma sleep_op_now: "clock_sleeps P \<Longrightarrow> now P (daemon w) + d \<le> now P (daemon (sleep_op P d w))"
  by (simp add: clock_sleeps_def sleep_op_def)

lemma steadyD: "steady P f \<Longrightarrow> now P (daemon w) \<le> now P (daemon (snd (f w)))"
  by (simp add: steady_def)

section \<open>Loops that sleep between rounds\<close>

text \<open>
  What the three loops of the crate have in common: a round ends the loop with a result or asks for
  another one, before which the loop sleeps. The interval may change from round to round (\<open>interval\<close>
  and \<open>advance\<close> on a state of the loop). The loop is the least function with this equation, which is the
  induction principle over the rounds of a loop that returned.
\<close>

locale sleeping_loop =
  fixes P :: "'d platform"
    and loop :: "'s \<Rightarrow> ('d, 'a) prog"
    and body :: "'d world \<Rightarrow> 'a result option \<times> 'd world"
    and interval :: "'s \<Rightarrow> duration"
    and advance :: "'s \<Rightarrow> 's"
  assumes loop_unfold: "loop s w = (case body w of (q, w') \<Rightarrow>
      (case q of Some r \<Rightarrow> Some (r, w') | None \<Rightarrow> loop (advance s) (sleep_op P (interval s) w')))"
    and loop_induct: "\<And>Q s w y. loop s w = Some y
      \<Longrightarrow> (\<And>s w r w'. body w = (Some r, w') \<Longrightarrow> Q s w (r, w'))
      \<Longrightarrow> (\<And>s w w' y. body w = (None, w') \<Longrightarrow> Q (advance s) (sleep_op P (interval s) w') y \<Longrightarrow> Q s w y)
      \<Longrightarrow> Q s w y"
begin

text \<open>Each round that goes on uses up at least one interval of the time before the deadline.\<close>

lemma loop_returns:
  assumes "clock_sleeps P" "steady P body" "0 < interval s" "\<And>s. 0 < interval s \<Longrightarrow> 0 < interval (advance s)"
    and "\<And>v. deadline < now P (daemon v) \<Longrightarrow> fst (body v) \<noteq> None"
  shows "\<exists>r w'. loop s w = Some (r, w') \<and> now P (daemon w) \<le> now P (daemon w')"
  using assms(3)
proof (induction "Suc deadline - now P (daemon w)" arbitrary: w s rule: less_induct)
  case less
  obtain q w1 where b: "body w = (q, w1)" by fastforce
  have t1: "now P (daemon w) \<le> now P (daemon w1)" using steadyD [OF assms(2), of w] b by simp
  show ?case
  proof (cases q)
    case (Some r)
    with b t1 show ?thesis by (subst loop_unfold) simp
  next
    case None
    then have d: "now P (daemon w) \<le> deadline" using assms(5) [of w] b by force
    define w2 where "w2 = sleep_op P (interval s) w1"
    have t2: "now P (daemon w1) + interval s \<le> now P (daemon w2)" using sleep_op_now [OF assms(1)] by (simp add: w2_def)
    have "Suc deadline - now P (daemon w2) < Suc deadline - now P (daemon w)" using t1 t2 d less.prems by simp
    from less.hyps [OF this assms(4) [OF less.prems]] obtain r w'
      where "loop (advance s) w2 = Some (r, w')" "now P (daemon w2) \<le> now P (daemon w')" by blast
    with None b t1 t2 show ?thesis by (subst loop_unfold) (simp flip: w2_def)
  qed
qed

text \<open>The result is that of the last round.\<close>

lemma loop_outcome:
  assumes "loop s w = Some (r, w')"
  obtains v where "body v = (Some r, w')"
proof -
  from assms have "\<exists>v. body v = (Some (fst (r, w')), snd (r, w'))"
    by (rule loop_induct) auto
  with that show thesis by auto
qed

text \<open>A property of the world that the rounds and the passing of time keep, the loop keeps.\<close>

lemma loop_invariant:
  assumes "loop s w = Some (r, w')" "I w" "\<And>v. I v \<Longrightarrow> I (snd (body v))" "\<And>d v. I v \<Longrightarrow> I (sleep_op P d v)"
  shows "I w'"
proof -
  from assms(1) have "I w \<longrightarrow> I (snd (r, w'))"
  proof (rule loop_induct)
    show "I w \<longrightarrow> I (snd (r, w'))" if "body w = (Some r, w')" for w r w'
      using that assms(3) [of w] by simp
    show "I w \<longrightarrow> I (snd y)" if "body w = (None, w')" "I (sleep_op P (interval s) w') \<longrightarrow> I (snd y)" for s w w' y
      using that assms(3) [of w] assms(4) by simp
  qed
  with assms(2) show ?thesis by simp
qed

end

text \<open>One round of \<^verbatim>\<open>poll_until\<close>.\<close>

definition poll_round ::
  "'d platform \<Rightarrow> instant \<Rightarrow> duration \<Rightarrow> string \<Rightarrow> ('d world \<Rightarrow> bool \<times> 'd world) \<Rightarrow> 'd world \<Rightarrow> unit result option \<times> 'd world" where
  "poll_round P start timeout msg pred w =
     (if elapsed P start w > timeout then (Some (Inl (Timeout msg)), w)
      else (case pred w of (b, w') \<Rightarrow> (if b then Some (Inr ()) else None, w')))"

lemma poll_until_unfold:
  "poll_until P start timeout interval msg pred w = (case poll_round P start timeout msg pred w of (q, w') \<Rightarrow>
     (case q of Some r \<Rightarrow> Some (r, w') | None \<Rightarrow> poll_until P start timeout interval msg pred (sleep_op P interval w')))"
  by (subst poll_until.simps) (auto simp: poll_round_def split: prod.split)

lemma poll_until_least:
  assumes "poll_until P start timeout interval msg pred w = Some y"
    and "\<And>w r w'. poll_round P start timeout msg pred w = (Some r, w') \<Longrightarrow> Q w (r, w')"
    and "\<And>w w' y. poll_round P start timeout msg pred w = (None, w') \<Longrightarrow> Q (sleep_op P interval w') y \<Longrightarrow> Q w y"
  shows "Q w y"
proof -
  let ?R = "\<lambda>((((((P', s'), t'), i'), m'), p'), v) y.
    P' = P \<and> s' = start \<and> t' = timeout \<and> i' = interval \<and> m' = msg \<and> p' = pred \<longrightarrow> Q v y"
  have "?R ((((((P, start), timeout), interval), msg), pred), w) y"
  proof (rule poll_until.raw_induct [OF _ assms(1), where Pa = ?R], goal_cases)
    case (1 pu P' s' t' i' m' p' v z)
    show ?case
    proof (clarify)
      assume eq: "P' = P" "s' = start" "t' = timeout" "i' = interval" "m' = msg" "p' = pred"
      obtain b v' where p: "pred v = (b, v')" by (cases "pred v")
      with 1(2) 1(1) [of P start timeout interval msg pred "sleep_op P interval v'" z] eq assms(2,3) [of v]
      show "Q v z" by (cases b) (auto simp: poll_round_def split: if_splits)
    qed
  qed
  then show ?thesis by simp
qed

interpretation polling: sleeping_loop P "\<lambda>_ :: unit. poll_until P start timeout interval msg pred"
  "poll_round P start timeout msg pred" "\<lambda>_. interval" "\<lambda>_. ()" for P start timeout interval msg pred
proof unfold_locales
  show "Q s w y" if "poll_until P start timeout interval msg pred w = Some y"
    "\<And>s w r w'. poll_round P start timeout msg pred w = (Some r, w') \<Longrightarrow> Q s w (r, w')"
    "\<And>s w w' y. poll_round P start timeout msg pred w = (None, w') \<Longrightarrow> Q () (sleep_op P interval w') y \<Longrightarrow> Q s w y"
    for Q and s :: unit and w y
    using poll_until_least [OF that(1), of "Q ()"] that(2,3) by simp
qed (rule poll_until_unfold)

lemma retry_loop_least:
  assumes "retry_loop P interval body w = Some y"
    and "\<And>w r w'. body w = (Some r, w') \<Longrightarrow> Q w (r, w')"
    and "\<And>w w' y. body w = (None, w') \<Longrightarrow> Q (sleep_op P interval w') y \<Longrightarrow> Q w y"
  shows "Q w y"
proof -
  let ?R = "\<lambda>(((P', i'), b'), v) y. P' = P \<and> i' = interval \<and> b' = body \<longrightarrow> Q v y"
  have "?R (((P, interval), body), w) y"
  proof (rule retry_loop.raw_induct [OF _ assms(1), where Pa = ?R], goal_cases)
    case (1 rl P' i' b' v z)
    show ?case
    proof (clarify)
      assume eq: "P' = P" "i' = interval" "b' = body"
      obtain q v' where b: "body v = (q, v')" by fastforce
      with 1(2) 1(1) [of P interval body "sleep_op P interval v'" z] eq assms(2,3) [of v]
      show "Q v z" by (cases q) auto
    qed
  qed
  then show ?thesis by simp
qed

interpretation retrying: sleeping_loop P "\<lambda>_ :: unit. retry_loop P interval body" body "\<lambda>_. interval" "\<lambda>_. ()"
  for P interval body
proof unfold_locales
  show "Q s w y" if "retry_loop P interval body w = Some y"
    "\<And>s w r w'. body w = (Some r, w') \<Longrightarrow> Q s w (r, w')"
    "\<And>s w w' y. body w = (None, w') \<Longrightarrow> Q () (sleep_op P interval w') y \<Longrightarrow> Q s w y" for Q and s :: unit and w y
    using retry_loop_least [OF that(1), of "Q ()"] that(2,3) by simp
qed (rule retry_loop.simps)

text \<open>\<^verbatim>\<open>poll_until\<close> comes to an end; it succeeds only right after its predicate held, and otherwise the deadline has passed.\<close>

lemma poll_until_returns:
  assumes "clock_sleeps P" "steady P pred" "0 < interval"
  shows "\<exists>r w'. poll_until P start timeout interval msg pred w = Some (r, w') \<and> now P (daemon w) \<le> now P (daemon w')"
proof (rule polling.loop_returns [OF assms(1), where deadline = "start + timeout"])
  show "steady P (poll_round P start timeout msg pred)"
    using assms(2) by (auto simp: steady_def poll_round_def case_prod_beta)
qed (auto simp: assms poll_round_def elapsed_def)

lemma poll_until_at_once:
  "pred w = (True, w') \<Longrightarrow> poll_until P (now P (daemon w)) timeout interval msg pred w = Some (Inr (), w')"
  by (subst poll_until.simps) (simp add: elapsed_def)

lemma poll_until_outcome:
  assumes "poll_until P start timeout interval msg pred w = Some (r, w')"
  shows "(r = Inr () \<and> (\<exists>v. pred v = (True, w') \<and> elapsed P start v \<le> timeout))
    \<or> (r = Inl (Timeout msg) \<and> elapsed P start w' > timeout)"
proof -
  obtain v where "poll_round P start timeout msg pred v = (Some r, w')" by (rule polling.loop_outcome [OF assms])
  then show ?thesis by (fastforce simp: poll_round_def split: if_splits prod.splits)
qed

lemma poll_until_invariant:
  assumes "poll_until P start timeout interval msg pred w = Some (r, w')"
    and "I w" and "\<And>v. I v \<Longrightarrow> I (snd (pred v))" and "\<And>d v. I v \<Longrightarrow> I (sleep_op P d v)"
  shows "I w'"
  by (rule polling.loop_invariant [where I = I, OF assms(1,2)]) (use assms(3,4) in \<open>auto simp: poll_round_def case_prod_beta\<close>)

lemma retry_loop_returns:
  assumes "clock_sleeps P" "steady P body" "0 < interval"
    and "\<And>v. deadline < now P (daemon v) \<Longrightarrow> fst (body v) \<noteq> None"
  shows "\<exists>r w'. retry_loop P interval body w = Some (r, w') \<and> now P (daemon w) \<le> now P (daemon w')"
  by (rule retrying.loop_returns [OF assms(1,2,3) _ assms(4)]) (rule assms(3))

lemmas retry_loop_outcome = retrying.loop_outcome

section \<open>What operations keep\<close>

text \<open>
  \<open>keeps I m\<close>: the operation keeps the property \<open>I\<close> of the daemon, whether it succeeds or fails. The
  rules follow the composition, so that a property kept by the remote calls is kept by what is
  built from them.
\<close>

definition rpc_keeps :: "('d \<Rightarrow> bool) \<Rightarrow> ('d \<Rightarrow> 'a \<times> 'd) \<Rightarrow> bool" where
  "rpc_keeps I f \<longleftrightarrow> (\<forall>d. I d \<longrightarrow> I (snd (f d)))"

definition keeps :: "('d \<Rightarrow> bool) \<Rightarrow> ('d world \<Rightarrow> 'a \<times> 'd world) \<Rightarrow> bool" where
  "keeps I m \<longleftrightarrow> (\<forall>w. I (daemon w) \<longrightarrow> I (daemon (snd (m w))))"

definition p_keeps :: "('d \<Rightarrow> bool) \<Rightarrow> ('d, 'a) prog \<Rightarrow> bool" where
  "p_keeps I m \<longleftrightarrow> (\<forall>w r w'. I (daemon w) \<longrightarrow> m w = Some (r, w') \<longrightarrow> I (daemon w'))"

named_theorems keeps_intros \<open>closure rules for the operations that keep a property of the daemon\<close>

lemma keepsD: "keeps I m \<Longrightarrow> m w = (r, w') \<Longrightarrow> I (daemon w) \<Longrightarrow> I (daemon w')"
  by (metis keeps_def snd_conv)

lemma keepsI: "(\<And>w r w'. I (daemon w) \<Longrightarrow> m w = (r, w') \<Longrightarrow> I (daemon w')) \<Longrightarrow> keeps I m"
  by (auto simp: keeps_def) (metis prod.collapse)

lemma rpc_keepsD: "rpc_keeps I f \<Longrightarrow> f d = (r, d') \<Longrightarrow> I d \<Longrightarrow> I d'"
  by (metis rpc_keeps_def snd_conv)

lemma keeps_ret [keeps_intros]: "keeps I (ret x)" and keeps_fail [keeps_intros]: "keeps I (fail e)"
  and keeps_from_result [keeps_intros]: "keeps I (from_result r)"
  by (simp_all add: keeps_def)

lemma keeps_bind [keeps_intros]:
  assumes "keeps I m" "\<And>x. keeps I (k x)"
  shows "keeps I (bind m k)"
proof (rule keepsI)
  fix w r w' assume i: "I (daemon w)" and r: "bind m k w = (r, w')"
  obtain q v where m: "m w = (q, v)" by fastforce
  then have "I (daemon v)" using keepsD [OF assms(1)] i by blast
  with r m show "I (daemon w')" by (cases q) (auto dest: keepsD [OF assms(2)])
qed

lemma keeps_rpc_call: "rpc_keeps I f \<Longrightarrow> keeps I (rpc_call f)"
  by (auto simp: keeps_def rpc_call_def rpc_keeps_def split: prod.split)

lemma keeps_call [keeps_intros]: "rpc_keeps I f \<Longrightarrow> keeps I (call f g)"
  by (rule keepsI) (auto simp: call_def dest: keepsD [OF keeps_rpc_call] split: prod.splits sum.splits)

lemma keeps_call_raw [keeps_intros]:
  assumes "rpc_keeps I f" "\<And>r. keeps I (k r)"
  shows "keeps I (call_raw f k)"
  using keepsD [OF keeps_rpc_call [OF assms(1)]] keepsD [OF assms(2)]
  by (intro keepsI) (auto simp: call_raw_def split: prod.splits)

lemma keeps_with_daemon [keeps_intros]:
  assumes "rpc_keeps I f" "\<And>x. keeps I (k x)"
  shows "keeps I (with_daemon f k)"
proof (rule keepsI)
  fix w r w' assume i: "I (daemon w)" and r: "with_daemon f k w = (r, w')"
  obtain x d where f: "f (daemon w) = (x, d)" by fastforce
  then have "I (daemon (w\<lparr>daemon := d\<rparr>))" using rpc_keepsD [OF assms(1)] i by simp
  with r f keepsD [OF assms(2)] show "I (daemon w')" by (simp add: with_daemon_def)
qed

lemma keeps_try [keeps_intros]: "keeps I m \<Longrightarrow> (\<And>x. keeps I (k x)) \<Longrightarrow> keeps I (try_op m k)"
  by (rule keepsI) (auto simp: try_op_def dest: keepsD split: prod.splits)

lemma keeps_with_files [keeps_intros]: "keeps I (with_files f)"
  by (auto simp: keeps_def with_files_def split: prod.split)

lemma keeps_if [keeps_intros]: "keeps I m \<Longrightarrow> keeps I n \<Longrightarrow> keeps I (if b then m else n)"
  by simp

lemma p_keeps_lift [keeps_intros]: "keeps I m \<Longrightarrow> p_keeps I (p_lift m)"
  by (auto simp: p_keeps_def p_lift_def dest: keepsD)

lemma p_keepsD: "p_keeps I m \<Longrightarrow> m w = Some (r, w') \<Longrightarrow> I (daemon w) \<Longrightarrow> I (daemon w')"
  by (auto simp: p_keeps_def)

lemma p_keepsI: "(\<And>w r w'. I (daemon w) \<Longrightarrow> m w = Some (r, w') \<Longrightarrow> I (daemon w')) \<Longrightarrow> p_keeps I m"
  by (auto simp: p_keeps_def)

lemma p_keeps_bind [keeps_intros]:
  assumes "p_keeps I m" "\<And>x. p_keeps I (k x)"
  shows "p_keeps I (p_bind m k)"
proof (rule p_keepsI)
  fix w r w' assume i: "I (daemon w)" and r: "p_bind m k w = Some (r, w')"
  then obtain q v where m: "m w = Some (q, v)" by (cases "m w") (auto simp: p_bind_def)
  then have "I (daemon v)" using p_keepsD [OF assms(1)] i by blast
  with r m show "I (daemon w')" by (cases q) (auto simp: p_bind_def dest: p_keepsD [OF assms(2)])
qed

lemma p_keeps_try [keeps_intros]:
  assumes "p_keeps I m" "\<And>x. p_keeps I (k x)"
  shows "p_keeps I (p_try m k)"
proof (rule p_keepsI)
  fix w r w' assume i: "I (daemon w)" and r: "p_try m k w = Some (r, w')"
  then obtain q v where m: "m w = Some (q, v)" by (cases "m w") (auto simp: p_try_def)
  then have "I (daemon v)" using p_keepsD [OF assms(1)] i by blast
  with r m show "I (daemon w')" by (auto simp: p_try_def dest: p_keepsD [OF assms(2)])
qed

lemma p_keeps_poll [keeps_intros]:
  assumes "keeps I pred" "\<And>d. rpc_keeps I (\<lambda>s. ((), sleep P d s))"
  shows "p_keeps I (\<lambda>w. poll_until P (start w) timeout interval msg pred w)"
proof (rule p_keepsI)
  fix w r w' assume "I (daemon w)" "poll_until P (start w) timeout interval msg pred w = Some (r, w')"
  with poll_until_invariant [where I = "\<lambda>w. I (daemon w)"] show "I (daemon w')"
    using assms unfolding keeps_def rpc_keeps_def sleep_op_def by force
qed

lemma p_keeps_retry [keeps_intros]:
  assumes "keeps I body" "\<And>d. rpc_keeps I (\<lambda>s. ((), sleep P d s))"
  shows "p_keeps I (retry_loop P interval body)"
proof (rule p_keepsI)
  fix w r w' assume "I (daemon w)" "retry_loop P interval body w = Some (r, w')"
  with retrying.loop_invariant [where I = "\<lambda>w. I (daemon w)"] show "I (daemon w')"
    using assms unfolding keeps_def rpc_keeps_def sleep_op_def by force
qed

lemma keeps_true [keeps_intros]: "keeps I (\<lambda>w. (x, w))"
  by (simp add: keeps_def)

lemma p_keeps_if [keeps_intros]: "p_keeps I m \<Longrightarrow> p_keeps I n \<Longrightarrow> p_keeps I (if b then m else n)"
  by simp

text \<open>Rules for the case that the continuation depends on what the first part can return.\<close>

lemma keeps_bind_post:
  assumes "keeps I m" "\<And>w x w'. I (daemon w) \<Longrightarrow> m w = (Inr x, w') \<Longrightarrow> Q x" "\<And>x. Q x \<Longrightarrow> keeps I (k x)"
  shows "keeps I (bind m k)"
proof (rule keepsI)
  fix w r w' assume i: "I (daemon w)" and r: "bind m k w = (r, w')"
  obtain q v where q: "m w = (q, v)" by fastforce
  have "I (daemon v)" using keepsD [OF assms(1) q i] .
  with r q assms(2) [OF i] keepsD [OF assms(3)] show "I (daemon w')" by (cases q) auto
qed

lemma keeps_with_daemon_post:
  assumes "rpc_keeps I f" "\<And>x. x \<in> range (\<lambda>d. fst (f d)) \<Longrightarrow> keeps I (k x)"
  shows "keeps I (with_daemon f k)"
proof (rule keepsI)
  fix w r w' assume i: "I (daemon w)" and r: "with_daemon f k w = (r, w')"
  obtain x d where x: "f (daemon w) = (x, d)" by fastforce
  then have "x \<in> range (\<lambda>d. fst (f d))" by (metis fst_conv rangeI)
  from keepsD [OF assms(2) [OF this], of "w\<lparr>daemon := d\<rparr>"] rpc_keepsD [OF assms(1) x i] r x show "I (daemon w')"
    by (simp add: with_daemon_def)
qed

lemma p_keeps_bind_post:
  assumes "keeps I m" "\<And>w x w'. I (daemon w) \<Longrightarrow> m w = (Inr x, w') \<Longrightarrow> Q x" "\<And>x. Q x \<Longrightarrow> p_keeps I (k x)"
  shows "p_keeps I (p_bind (p_lift m) k)"
proof (rule p_keepsI)
  fix w r w' assume i: "I (daemon w)" and r: "p_bind (p_lift m) k w = Some (r, w')"
  obtain q v where q: "m w = (q, v)" by fastforce
  have "I (daemon v)" using keepsD [OF assms(1) q i] .
  with r q assms(2) [OF i] p_keepsD [OF assms(3)] show "I (daemon w')" by (cases q) (auto simp: p_lift_def p_bind_def)
qed

text \<open>
  Every remote call of a client with namespace \<open>ns\<close> keeps a property of the daemon, as far as those
  that create, start, delete, pause or resume the task of a container, delete its record, make a
  record on a layer, or remove or commit a layer, are among \<open>A\<close>. Starting a command in a task has an
  exec identifier and is not the start of the task.
\<close>

datatype touch =
  Task_Made string | Task_Paused string | Task_Resumed string | Task_Removed string | Record_Removed string
| Layer_Used string | Layer_Lost string

definition calls_keep :: "'d platform \<Rightarrow> string \<Rightarrow> touch set \<Rightarrow> ('d \<Rightarrow> bool) \<Rightarrow> bool" where
  "calls_keep P ns A I \<longleftrightarrow>
     (\<forall>c. rpc_keeps I (containers_get P ns c)) \<and> (\<forall>fl. rpc_keeps I (containers_list P ns fl))
     \<and> (\<forall>m. Layer_Used (cm_snapshot_key m) \<in> A \<longrightarrow> rpc_keeps I (containers_create P ns m)) \<and> (\<forall>c. Record_Removed c \<in> A \<longrightarrow> rpc_keeps I (containers_delete P ns c))
     \<and> (\<forall>s k. rpc_keeps I (snapshots_mounts P ns s k)) \<and> (\<forall>s k par ls. rpc_keeps I (snapshots_prepare P ns s k par ls))
     \<and> (\<forall>s n k ls. Layer_Lost k \<in> A \<longrightarrow> rpc_keeps I (snapshots_commit P ns s n k ls)) \<and> (\<forall>s k. Layer_Lost k \<in> A \<longrightarrow> rpc_keeps I (snapshots_remove P ns s k))
     \<and> (\<forall>s k. rpc_keeps I (snapshots_stat P ns s k)) \<and> (\<forall>s fl. rpc_keeps I (snapshots_list P ns s fl))
     \<and> (\<forall>m. Task_Made (ct_container_id m) \<in> A \<longrightarrow> rpc_keeps I (tasks_create P ns m)) \<and> (\<forall>c e. Task_Made c \<in> A \<or> e \<noteq> [] \<longrightarrow> rpc_keeps I (tasks_start P ns c e))
     \<and> (\<forall>c e s a. rpc_keeps I (tasks_kill P ns c e s a)) \<and> (\<forall>c. Task_Removed c \<in> A \<longrightarrow> rpc_keeps I (tasks_delete P ns c))
     \<and> (\<forall>c e. rpc_keeps I (tasks_get P ns c e)) \<and> (\<forall>f. rpc_keeps I (tasks_list P ns f))
     \<and> (\<forall>c. Task_Paused c \<in> A \<longrightarrow> rpc_keeps I (tasks_pause P ns c)) \<and> (\<forall>c. Task_Resumed c \<in> A \<longrightarrow> rpc_keeps I (tasks_resume P ns c))
     \<and> (\<forall>m. rpc_keeps I (tasks_exec P ns m)) \<and> (\<forall>c e. rpc_keeps I (tasks_wait P ns c e))
     \<and> (\<forall>c e. rpc_keeps I (tasks_delete_process P ns c e)) \<and> (\<forall>i. rpc_keeps I (images_get P ns i))
     \<and> (\<forall>g. rpc_keeps I (content_read P ns g)) \<and> (\<forall>m. rpc_keeps I (transfer P ns m))
     \<and> rpc_keeps I (uuid_v4 P) \<and> (\<forall>xs. rpc_keeps I (rng_choose P xs)) \<and> rpc_keeps I (ephemeral_port P) \<and> (\<forall>n. rpc_keeps I (bind_port P n))"

lemma calls_keepD:
  assumes "calls_keep P ns A I"
  shows "rpc_keeps I (containers_get P ns c)" "rpc_keeps I (containers_list P ns fl)" "Layer_Used (cm_snapshot_key cm) \<in> A \<Longrightarrow> rpc_keeps I (containers_create P ns cm)"
    "Record_Removed c \<in> A \<Longrightarrow> rpc_keeps I (containers_delete P ns c)" "rpc_keeps I (snapshots_mounts P ns s k)" "rpc_keeps I (snapshots_prepare P ns s k par ls)"
    "Layer_Lost k \<in> A \<Longrightarrow> rpc_keeps I (snapshots_commit P ns s n k ls)" "Layer_Lost k \<in> A \<Longrightarrow> rpc_keeps I (snapshots_remove P ns s k)" "rpc_keeps I (snapshots_stat P ns s k)"
    "rpc_keeps I (snapshots_list P ns s fl)" "Task_Made (ct_container_id tm) \<in> A \<Longrightarrow> rpc_keeps I (tasks_create P ns tm)" "Task_Made c \<in> A \<or> e \<noteq> [] \<Longrightarrow> rpc_keeps I (tasks_start P ns c e)"
    "rpc_keeps I (tasks_kill P ns c e g a)" "Task_Removed c \<in> A \<Longrightarrow> rpc_keeps I (tasks_delete P ns c)" "rpc_keeps I (tasks_get P ns c e)"
    "rpc_keeps I (tasks_list P ns f)" "Task_Paused c \<in> A \<Longrightarrow> rpc_keeps I (tasks_pause P ns c)" "Task_Resumed c \<in> A \<Longrightarrow> rpc_keeps I (tasks_resume P ns c)"
    "rpc_keeps I (tasks_exec P ns em)" "rpc_keeps I (tasks_wait P ns c e)" "rpc_keeps I (tasks_delete_process P ns c e)"
    "rpc_keeps I (images_get P ns i)" "rpc_keeps I (content_read P ns dg)" "rpc_keeps I (transfer P ns xm)"
    "rpc_keeps I (uuid_v4 P)" "rpc_keeps I (rng_choose P xs)" "rpc_keeps I (ephemeral_port P)" "rpc_keeps I (bind_port P hp)"
  using assms unfolding calls_keep_def by simp_all (elim conjE disjE; simp)

lemma calls_keep_conj:
  "calls_keep P ns A I \<Longrightarrow> calls_keep P ns B J \<Longrightarrow> calls_keep P ns (A \<inter> B) (\<lambda>d. I d \<and> J d)"
  by (simp add: calls_keep_def rpc_keeps_def)

text \<open>The layer under a container is among those that may go.\<close>

definition layers_in :: "'d platform \<Rightarrow> string \<Rightarrow> touch set \<Rightarrow> ('d \<Rightarrow> bool) \<Rightarrow> string \<Rightarrow> bool" where
  "layers_in P ns A I c \<longleftrightarrow>
     (\<forall>d m d'. I d \<longrightarrow> containers_get P ns c d = (Inr (Some m), d') \<longrightarrow> Layer_Lost (cm_snapshot_key m) \<in> A)"

lemma layers_in_all [simp]: "range Layer_Lost \<subseteq> A \<Longrightarrow> layers_in P ns A I c"
  by (auto simp: layers_in_def)

text \<open>No call turns the clock back.\<close>

definition clock_monotone :: "'d platform \<Rightarrow> string \<Rightarrow> bool" where
  "clock_monotone P ns \<longleftrightarrow> (\<forall>t. calls_keep P ns UNIV (\<lambda>d. t \<le> now P d))"

lemma clock_monotoneD: "clock_monotone P ns \<Longrightarrow> calls_keep P ns UNIV (\<lambda>d. t \<le> now P d)"
  by (simp add: clock_monotone_def)

section \<open>Programs that return\<close>

text \<open>\<open>returns P m\<close>: whatever the world, the program comes to an end, and not earlier than it began.\<close>

definition returns :: "'d platform \<Rightarrow> ('d, 'a) prog \<Rightarrow> bool" where
  "returns P m \<longleftrightarrow> (\<forall>w. \<exists>r w'. m w = Some (r, w') \<and> now P (daemon w) \<le> now P (daemon w'))"

named_theorems returns_intros \<open>closure rules for programs that return\<close>

lemma steady_keeps: "steady P m \<longleftrightarrow> (\<forall>t. keeps (\<lambda>d. t \<le> now P d) m)"
  by (auto simp: steady_def keeps_def intro: order_trans)

lemma steadyI: "(\<And>t. keeps (\<lambda>d. t \<le> now P d) m) \<Longrightarrow> steady P m"
  by (simp add: steady_keeps)

lemma returnsE: "returns P m \<Longrightarrow> (\<And>r w'. m w = Some (r, w') \<Longrightarrow> now P (daemon w) \<le> now P (daemon w') \<Longrightarrow> thesis) \<Longrightarrow> thesis"
  by (auto simp: returns_def)

lemma returns_lift [returns_intros]: "steady P m \<Longrightarrow> returns P (p_lift m)"
  by (auto simp: returns_def steady_def) (metis prod.collapse)

lemma returns_try [returns_intros]:
  assumes "returns P m" "\<And>x. returns P (k x)"
  shows "returns P (p_try m k)"
  unfolding returns_def
proof
  fix w
  obtain r v where m: "m w = Some (r, v)" "now P (daemon w) \<le> now P (daemon v)" by (rule returnsE [OF assms(1)])
  obtain r' w' where "k r v = Some (r', w')" "now P (daemon v) \<le> now P (daemon w')" by (rule returnsE [OF assms(2)])
  with m show "\<exists>r w'. p_try m k w = Some (r, w') \<and> now P (daemon w) \<le> now P (daemon w')" by simp
qed

lemma p_bind_try: "p_bind m k = p_try m (\<lambda>r. case r of Inl e \<Rightarrow> (\<lambda>w. Some (Inl e, w)) | Inr x \<Rightarrow> k x)"
  by (auto simp: p_bind_def p_try_def fun_eq_iff split: option.split sum.split)

lemma returns_value [returns_intros]: "returns P (\<lambda>w. Some (r, w))"
  by (simp add: returns_def)

lemma returns_bind [returns_intros]:
  "returns P m \<Longrightarrow> (\<And>x. returns P (k x)) \<Longrightarrow> returns P (p_bind m k)"
  unfolding p_bind_try by (rule returns_try) (auto split: sum.split intro: returns_value)

lemma returns_poll [returns_intros]:
  "clock_sleeps P \<Longrightarrow> steady P pred \<Longrightarrow> 0 < interval \<Longrightarrow> returns P (\<lambda>w. poll_until P (start w) timeout interval msg pred w)"
  unfolding returns_def using poll_until_returns by blast

lemma returns_if [returns_intros]: "returns P m \<Longrightarrow> returns P n \<Longrightarrow> returns P (if b then m else n)"
  by simp

lemma bind_always_fails: "(\<And>x w. isl (fst (k x w))) \<Longrightarrow> isl (fst (bind m k w))"
  by (auto simp: bind_def split: prod.split sum.split)

lemma bind_fails_first: "isl (fst (m w)) \<Longrightarrow> isl (fst (bind m k w))"
  by (auto simp: bind_def split: prod.split sum.split)

section \<open>Operations that only talk to the daemon\<close>

definition remote_only :: "('d world \<Rightarrow> 'a \<times> 'd world) \<Rightarrow> bool" where
  "remote_only m \<longleftrightarrow> (\<forall>w. snd (m w) = w\<lparr>daemon := daemon (snd (m w))\<rparr>)"

named_theorems remote_intros \<open>closure rules for operations that change nothing but the daemon\<close>

lemma remote_onlyD: "remote_only m \<Longrightarrow> m w = (r, w') \<Longrightarrow> w' = w\<lparr>daemon := daemon w'\<rparr>"
  by (metis remote_only_def snd_conv)

lemma remote_onlyI: "(\<And>w r w'. m w = (r, w') \<Longrightarrow> w' = w\<lparr>daemon := daemon w'\<rparr>) \<Longrightarrow> remote_only m"
  by (metis remote_only_def prod.collapse)

lemma remote_trans: "v = w\<lparr>daemon := daemon v\<rparr> \<Longrightarrow> w' = v\<lparr>daemon := daemon w'\<rparr> \<Longrightarrow> w' = w\<lparr>daemon := daemon w'\<rparr>"
  by (cases v; cases w; cases w') simp

lemma remote_ret [remote_intros]: "remote_only (ret x)" and remote_fail [remote_intros]: "remote_only (fail e)"
  and remote_from_result [remote_intros]: "remote_only (from_result r)"
  and remote_rpc_call: "remote_only (rpc_call f)"
  by (auto simp: remote_only_def rpc_call_def split: prod.split)

lemma remote_bind [remote_intros]:
  assumes "remote_only m" "\<And>x. remote_only (k x)"
  shows "remote_only (bind m k)"
proof (rule remote_onlyI)
  fix w r w' assume r: "bind m k w = (r, w')"
  obtain q v where m: "m w = (q, v)" by fastforce
  note v = remote_onlyD [OF assms(1) m]
  show "w' = w\<lparr>daemon := daemon w'\<rparr>"
  proof (cases q)
    case (Inl e)
    with r m v show ?thesis by simp
  next
    case (Inr x)
    with r m have "k x v = (r, w')" by simp
    from remote_trans [OF v remote_onlyD [OF assms(2) this]] show ?thesis .
  qed
qed

lemma remote_try [remote_intros]:
  assumes "remote_only m" "\<And>x. remote_only (k x)"
  shows "remote_only (try_op m k)"
proof (rule remote_onlyI)
  fix w r w' assume r: "try_op m k w = (r, w')"
  obtain q v where m: "m w = (q, v)" by fastforce
  with r have "k q v = (r, w')" by (simp add: try_op_def)
  from remote_trans [OF remote_onlyD [OF assms(1) m] remote_onlyD [OF assms(2) this]]
  show "w' = w\<lparr>daemon := daemon w'\<rparr>" .
qed

lemma remote_call [remote_intros]: "remote_only (call f g)"
  by (rule remote_onlyI) (auto simp: call_def dest: remote_onlyD [OF remote_rpc_call] split: prod.splits sum.splits)

lemma remote_call_raw [remote_intros]:
  assumes "\<And>r. remote_only (k r)"
  shows "remote_only (call_raw f k)"
proof (rule remote_onlyI)
  fix w r w' assume r: "call_raw f k w = (r, w')"
  obtain q v where m: "rpc_call f w = (q, v)" by fastforce
  with r have "k q v = (r, w')" by (simp add: call_raw_def)
  from remote_trans [OF remote_onlyD [OF remote_rpc_call m] remote_onlyD [OF assms this]]
  show "w' = w\<lparr>daemon := daemon w'\<rparr>" .
qed

lemma remote_with_daemon [remote_intros]:
  assumes "\<And>x. remote_only (k x)"
  shows "remote_only (with_daemon f k)"
proof (rule remote_onlyI)
  fix w r w' assume r: "with_daemon f k w = (r, w')"
  obtain x d where "f (daemon w) = (x, d)" by fastforce
  with r have "k x (w\<lparr>daemon := d\<rparr>) = (r, w')" by (simp add: with_daemon_def)
  from remote_trans [OF _ remote_onlyD [OF assms this]] show "w' = w\<lparr>daemon := daemon w'\<rparr>" by simp
qed

lemma remote_if [remote_intros]: "remote_only m \<Longrightarrow> remote_only n \<Longrightarrow> remote_only (if b then m else n)"
  by simp

end
