(* ===== verification/Reference_Daemon.thy ===== *)
theory Reference_Daemon
  imports World
begin

text \<open>
  A small daemon that behaves as containerd documents its services: records are created once and
  found until deleted, tasks go from created to running to stopped, snapshots form a forest, and
  the clock moves only by sleeping. It is an instance of \<open>platform\<close> on which the hypotheses of the
  properties hold together, and on which witnesses compute; nothing in the model depends on it.
\<close>

record rd =
  rd_clock :: nat
  rd_containers :: "(string \<times> container_msg) list"
  rd_tasks :: "(string \<times> process_msg) list"
  rd_snapshots :: "(string \<times> snapshot_msg) list"
  rd_images :: "(string \<times> image_msg) list"
  rd_blobs :: "(string \<times> bytes) list"
  rd_ids :: nat

definition rd_init :: rd where
  "rd_init = \<lparr>rd_clock = 0, rd_containers = [], rd_tasks = [], rd_snapshots = [], rd_images = [], rd_blobs = [], rd_ids = 0\<rparr>"

definition rd_err :: "code \<Rightarrow> rd \<Rightarrow> (status + 'a) \<times> rd" where
  "rd_err c d = (Inl \<lparr>status_code = c, status_message = []\<rparr>, d)"

definition rd_key :: "string \<Rightarrow> string \<Rightarrow> string" where
  "rd_key ns x = ns @ ''/'' @ x"

definition rd_matches :: "string list \<Rightarrow> container_msg \<Rightarrow> bool" where
  "rd_matches filters c \<longleftrightarrow> filters = [] \<or>
     list_ex (\<lambda>f. list_ex (\<lambda>(k, v). f = ''labels.'' @ [CHR 0x22] @ k @ [CHR 0x22] @ ''=='' @ v) (cm_labels c)) filters"

definition rd_in_ns :: "string \<Rightarrow> string \<Rightarrow> bool" where
  "rd_in_ns ns key \<longleftrightarrow> take (Suc (length ns)) key = ns @ ''/''"

definition rd_set_status :: "int \<Rightarrow> u32 \<Rightarrow> string \<Rightarrow> rd \<Rightarrow> rd" where
  "rd_set_status st ex k d =
     d\<lparr>rd_tasks := map (\<lambda>(k', p). (k', if k' = k then p\<lparr>pm_status := st, pm_exit_status := ex\<rparr> else p)) (rd_tasks d)\<rparr>"

definition rd_task_op :: "(process_msg \<Rightarrow> rd \<Rightarrow> (status + unit) \<times> rd) \<Rightarrow> string \<Rightarrow> rd \<Rightarrow> (status + unit) \<times> rd" where
  "rd_task_op f k d = (case map_of (rd_tasks d) k of None \<Rightarrow> rd_err Code_NotFound d | Some p \<Rightarrow> f p d)"

definition rd_platform :: "rd platform" where
  "rd_platform = \<lparr>
     containers_get = (\<lambda>ns c d. case map_of (rd_containers d) (rd_key ns c) of
        None \<Rightarrow> rd_err Code_NotFound d | Some m \<Rightarrow> (Inr (Some m), d)),
     containers_list = (\<lambda>ns fs d. (Inr (map snd (filter (\<lambda>(k, c). rd_in_ns ns k \<and> rd_matches fs c) (rd_containers d))), d)),
     containers_create = (\<lambda>ns c d. if map_of (rd_containers d) (rd_key ns (cm_id c)) \<noteq> None then rd_err Code_AlreadyExists d
        else (Inr (), d\<lparr>rd_containers := (rd_key ns (cm_id c), c) # rd_containers d\<rparr>)),
     containers_delete = (\<lambda>ns c d. if map_of (rd_containers d) (rd_key ns c) = None then rd_err Code_NotFound d
        else (Inr (), d\<lparr>rd_containers := filter (\<lambda>(k, _). k \<noteq> rd_key ns c) (rd_containers d)\<rparr>)),
     snapshots_mounts = (\<lambda>ns s k d. if map_of (rd_snapshots d) (rd_key ns k) = None then rd_err Code_NotFound d else (Inr [k], d)),
     snapshots_prepare = (\<lambda>ns s k par ls d. if map_of (rd_snapshots d) (rd_key ns k) \<noteq> None then rd_err Code_AlreadyExists d
        else if par = k then rd_err Code_NotFound d
        else (Inr (), d\<lparr>rd_snapshots := (rd_key ns k, \<lparr>sm_name = k, sm_parent = par, sm_labels = ls, sm_created_at = None\<rparr>) # rd_snapshots d\<rparr>)),
     snapshots_commit = (\<lambda>ns s nm k ls d. if map_of (rd_snapshots d) (rd_key ns nm) \<noteq> None then rd_err Code_AlreadyExists d
        else (case map_of (rd_snapshots d) (rd_key ns k) of None \<Rightarrow> rd_err Code_NotFound d
          | Some m \<Rightarrow> (Inr (), d\<lparr>rd_snapshots := (rd_key ns nm, \<lparr>sm_name = nm, sm_parent = sm_parent m, sm_labels = ls, sm_created_at = None\<rparr>)
               # filter (\<lambda>(k', _). k' \<noteq> rd_key ns k) (rd_snapshots d)\<rparr>))),
     snapshots_remove = (\<lambda>ns s k d. if map_of (rd_snapshots d) (rd_key ns k) = None then rd_err Code_NotFound d
        else if list_ex (\<lambda>(_, m). sm_parent m = k) (rd_snapshots d) then rd_err Code_FailedPrecondition d
        else (Inr (), d\<lparr>rd_snapshots := filter (\<lambda>(k', _). k' \<noteq> rd_key ns k) (rd_snapshots d)\<rparr>)),
     snapshots_stat = (\<lambda>ns s k d. case map_of (rd_snapshots d) (rd_key ns k) of
        None \<Rightarrow> rd_err Code_NotFound d | Some m \<Rightarrow> (Inr (Some m), d)),
     snapshots_list = (\<lambda>ns s fs d. (Inr [Inr (map snd (rd_snapshots d))], d)),
     tasks_create = (\<lambda>ns r d. if map_of (rd_tasks d) (rd_key ns (ct_container_id r)) \<noteq> None then rd_err Code_AlreadyExists d
        else (Inr 100, d\<lparr>rd_tasks := (rd_key ns (ct_container_id r),
            \<lparr>pm_container_id = ct_container_id r, pm_pid = 100, pm_status = 1, pm_exit_status = 0\<rparr>) # rd_tasks d\<rparr>)),
     tasks_start = (\<lambda>ns c e d. rd_task_op (\<lambda>p d. if e \<noteq> [] then (Inr (), d) else if pm_status p \<noteq> 1 then rd_err Code_FailedPrecondition d else (Inr (), rd_set_status 2 0 (rd_key ns c) d)) (rd_key ns c) d),
     tasks_kill = (\<lambda>ns c e sig all d. rd_task_op (\<lambda>p d. if pm_status p = 3 then rd_err Code_FailedPrecondition d
          else if pm_status p = 4 \<and> sig \<noteq> 9 then (Inr (), d)
          else (Inr (), rd_set_status 3 (128 + sig) (rd_key ns c) d)) (rd_key ns c) d),
     tasks_delete = (\<lambda>ns c d. rd_task_op (\<lambda>p d. if pm_status p \<noteq> 3 then rd_err Code_FailedPrecondition d
          else (Inr (), d\<lparr>rd_tasks := filter (\<lambda>(k, _). k \<noteq> rd_key ns c) (rd_tasks d)\<rparr>)) (rd_key ns c) d),
     tasks_get = (\<lambda>ns c e d. case map_of (rd_tasks d) (rd_key ns c) of
        None \<Rightarrow> rd_err Code_NotFound d | Some p \<Rightarrow> (Inr (Some p), d)),
     tasks_list = (\<lambda>ns f d. (Inr (map snd (filter (\<lambda>(k, _). rd_in_ns ns k) (rd_tasks d))), d)),
     tasks_pause = (\<lambda>ns c d. rd_task_op (\<lambda>p d. if pm_status p \<noteq> 2 then rd_err Code_FailedPrecondition d else (Inr (), rd_set_status 4 0 (rd_key ns c) d)) (rd_key ns c) d),
     tasks_resume = (\<lambda>ns c d. rd_task_op (\<lambda>p d. if pm_status p \<noteq> 4 then rd_err Code_FailedPrecondition d else (Inr (), rd_set_status 2 0 (rd_key ns c) d)) (rd_key ns c) d),
     tasks_exec = (\<lambda>ns r d. rd_task_op (\<lambda>_ d. (Inr (), d)) (rd_key ns (em_container_id r)) d),
     tasks_wait = (\<lambda>ns c e d. (Inr 0, d)),
     tasks_delete_process = (\<lambda>ns c e d. (Inr (), d)),
     images_get = (\<lambda>ns n d. case map_of (rd_images d) n of None \<Rightarrow> rd_err Code_NotFound d | Some m \<Rightarrow> (Inr (Some m), d)),
     content_read = (\<lambda>ns g d. case map_of (rd_blobs d) g of None \<Rightarrow> rd_err Code_NotFound d | Some b \<Rightarrow> (Inr [Inr b], d)),
     transfer = (\<lambda>ns m d. (Inr (), d\<lparr>rd_images := (tm_store_name m, \<lparr>im_name = tm_store_name m, im_target = Some ''sha256:0''\<rparr>) # rd_images d\<rparr>)),
     server_version_rpc = (\<lambda>d. (Inr ''2.0'', d)),
     now = rd_clock, system_now = (\<lambda>d. int (rd_clock d)), sleep = (\<lambda>t d. d\<lparr>rd_clock := rd_clock d + t\<rparr>),
     uuid_v4 = (\<lambda>d. (''id'' @ show_nat (rd_ids d), d\<lparr>rd_ids := Suc (rd_ids d)\<rparr>)),
     rng_choose = (\<lambda>xs d. (case xs of [] \<Rightarrow> None | x # _ \<Rightarrow> Some x, d)),
     ephemeral_port = (\<lambda>d. (Inr (of_nat (40000 + rd_ids d)), d\<lparr>rd_ids := Suc (rd_ids d)\<rparr>)),
     bind_port = (\<lambda>p d. (Inr (), d)),
     status_created = 1, status_running = 2, status_stopped = 3, status_paused = 4, status_pausing = 5,
     json_parse = (\<lambda>b. if b = ''m'' then Inr (JObject [(''config'', JObject [(''digest'', JString ''cfg'')])]) else Inl ''expected value''),
     parse_image_configuration = (\<lambda>b. if b = ''c'' then Inr \<lparr>ig_config = None, ig_diff_ids = [''sha256:a'']\<rparr> else Inl ''missing field''),
     spec_to_json = (\<lambda>s. os_version s), spec_of_json = (\<lambda>_. None), process_to_json = (\<lambda>p. op_cwd p),
     spec_default = \<lparr>os_version = [], os_process = None, os_root_path = [], os_root_readonly = True, os_namespaces = [],
        os_mounts = None, os_hooks = None\<rparr>,
     default_namespaces = [Ns_Pid, Ns_Network, Ns_Ipc, Ns_Uts, Ns_Mount, Ns_Cgroup],
     sha256_hex = (\<lambda>b. show_nat (length b)), metadata_value_ok = list_all (\<lambda>c. 32 \<le> (of_char c :: nat) \<and> (of_char c :: nat) < 127),
     target_arch = ''x86_64'', home_dir = Some ''/h'', process_id = 7\<rparr>"

definition rd_world :: "rd \<Rightarrow> rd world" where
  "rd_world d = \<lparr>daemon = d, managed_handles = [], managed_tailers = Map.empty, image_metadata_cache = Map.empty,
     task_start_times = Map.empty, files = empty_fs, exec_counter = 0\<rparr>"

text \<open>The calls of the reference daemon, for evaluation.\<close>

lemma rd_calls:
  "containers_get rd_platform = (\<lambda>ns c d. case map_of (rd_containers d) (rd_key ns c) of None \<Rightarrow> rd_err Code_NotFound d | Some m \<Rightarrow> (Inr (Some m), d))"
  "containers_list rd_platform = (\<lambda>ns fs d. (Inr (map snd (filter (\<lambda>(k, c). rd_in_ns ns k \<and> rd_matches fs c) (rd_containers d))), d))"
  "containers_create rd_platform = (\<lambda>ns c d. if map_of (rd_containers d) (rd_key ns (cm_id c)) \<noteq> None then rd_err Code_AlreadyExists d else (Inr (), d\<lparr>rd_containers := (rd_key ns (cm_id c), c) # rd_containers d\<rparr>))"
  "containers_delete rd_platform = (\<lambda>ns c d. if map_of (rd_containers d) (rd_key ns c) = None then rd_err Code_NotFound d else (Inr (), d\<lparr>rd_containers := filter (\<lambda>(k, _). k \<noteq> rd_key ns c) (rd_containers d)\<rparr>))"
  "snapshots_mounts rd_platform = (\<lambda>ns s k d. if map_of (rd_snapshots d) (rd_key ns k) = None then rd_err Code_NotFound d else (Inr [k], d))"
  "snapshots_prepare rd_platform = (\<lambda>ns s k par ls d. if map_of (rd_snapshots d) (rd_key ns k) \<noteq> None then rd_err Code_AlreadyExists d else if par = k then rd_err Code_NotFound d else (Inr (), d\<lparr>rd_snapshots := (rd_key ns k, \<lparr>sm_name = k, sm_parent = par, sm_labels = ls, sm_created_at = None\<rparr>) # rd_snapshots d\<rparr>))"
  "snapshots_commit rd_platform = (\<lambda>ns s nm k ls d. if map_of (rd_snapshots d) (rd_key ns nm) \<noteq> None then rd_err Code_AlreadyExists d else (case map_of (rd_snapshots d) (rd_key ns k) of None \<Rightarrow> rd_err Code_NotFound d | Some m \<Rightarrow> (Inr (), d\<lparr>rd_snapshots := (rd_key ns nm, \<lparr>sm_name = nm, sm_parent = sm_parent m, sm_labels = ls, sm_created_at = None\<rparr>) # filter (\<lambda>(k', _). k' \<noteq> rd_key ns k) (rd_snapshots d)\<rparr>)))"
  "snapshots_remove rd_platform = (\<lambda>ns s k d. if map_of (rd_snapshots d) (rd_key ns k) = None then rd_err Code_NotFound d else if list_ex (\<lambda>(_, m). sm_parent m = k) (rd_snapshots d) then rd_err Code_FailedPrecondition d else (Inr (), d\<lparr>rd_snapshots := filter (\<lambda>(k', _). k' \<noteq> rd_key ns k) (rd_snapshots d)\<rparr>))"
  "snapshots_stat rd_platform = (\<lambda>ns s k d. case map_of (rd_snapshots d) (rd_key ns k) of None \<Rightarrow> rd_err Code_NotFound d | Some m \<Rightarrow> (Inr (Some m), d))"
  "snapshots_list rd_platform = (\<lambda>ns s fs d. (Inr [Inr (map snd (rd_snapshots d))], d))"
  "tasks_create rd_platform = (\<lambda>ns r d. if map_of (rd_tasks d) (rd_key ns (ct_container_id r)) \<noteq> None then rd_err Code_AlreadyExists d else (Inr 100, d\<lparr>rd_tasks := (rd_key ns (ct_container_id r), \<lparr>pm_container_id = ct_container_id r, pm_pid = 100, pm_status = 1, pm_exit_status = 0\<rparr>) # rd_tasks d\<rparr>))"
  "tasks_start rd_platform = (\<lambda>ns c e d. rd_task_op (\<lambda>p d. if e \<noteq> [] then (Inr (), d) else if pm_status p \<noteq> 1 then rd_err Code_FailedPrecondition d else (Inr (), rd_set_status 2 0 (rd_key ns c) d)) (rd_key ns c) d)"
  "tasks_kill rd_platform = (\<lambda>ns c e sig all d. rd_task_op (\<lambda>p d. if pm_status p = 3 then rd_err Code_FailedPrecondition d else if pm_status p = 4 \<and> sig \<noteq> 9 then (Inr (), d) else (Inr (), rd_set_status 3 (128 + sig) (rd_key ns c) d)) (rd_key ns c) d)"
  "tasks_delete rd_platform = (\<lambda>ns c d. rd_task_op (\<lambda>p d. if pm_status p \<noteq> 3 then rd_err Code_FailedPrecondition d else (Inr (), d\<lparr>rd_tasks := filter (\<lambda>(k, _). k \<noteq> rd_key ns c) (rd_tasks d)\<rparr>)) (rd_key ns c) d)"
  "tasks_get rd_platform = (\<lambda>ns c e d. case map_of (rd_tasks d) (rd_key ns c) of None \<Rightarrow> rd_err Code_NotFound d | Some p \<Rightarrow> (Inr (Some p), d))"
  "tasks_list rd_platform = (\<lambda>ns f d. (Inr (map snd (filter (\<lambda>(k, _). rd_in_ns ns k) (rd_tasks d))), d))"
  "tasks_pause rd_platform = (\<lambda>ns c d. rd_task_op (\<lambda>p d. if pm_status p \<noteq> 2 then rd_err Code_FailedPrecondition d else (Inr (), rd_set_status 4 0 (rd_key ns c) d)) (rd_key ns c) d)"
  "tasks_resume rd_platform = (\<lambda>ns c d. rd_task_op (\<lambda>p d. if pm_status p \<noteq> 4 then rd_err Code_FailedPrecondition d else (Inr (), rd_set_status 2 0 (rd_key ns c) d)) (rd_key ns c) d)"
  "tasks_exec rd_platform = (\<lambda>ns r d. rd_task_op (\<lambda>_ d. (Inr (), d)) (rd_key ns (em_container_id r)) d)"
  "tasks_wait rd_platform = (\<lambda>ns c e d. (Inr 0, d))"
  "tasks_delete_process rd_platform = (\<lambda>ns c e d. (Inr (), d))"
  "images_get rd_platform = (\<lambda>ns n d. case map_of (rd_images d) n of None \<Rightarrow> rd_err Code_NotFound d | Some m \<Rightarrow> (Inr (Some m), d))"
  "content_read rd_platform = (\<lambda>ns g d. case map_of (rd_blobs d) g of None \<Rightarrow> rd_err Code_NotFound d | Some b \<Rightarrow> (Inr [Inr b], d))"
  "transfer rd_platform = (\<lambda>ns m d. (Inr (), d\<lparr>rd_images := (tm_store_name m, \<lparr>im_name = tm_store_name m, im_target = Some ''sha256:0''\<rparr>) # rd_images d\<rparr>))"
  "server_version_rpc rd_platform = (\<lambda>d. (Inr ''2.0'', d))"
  "now rd_platform = rd_clock"
  "system_now rd_platform = (\<lambda>d. int (rd_clock d))"
  "sleep rd_platform = (\<lambda>t d. d\<lparr>rd_clock := rd_clock d + t\<rparr>)"
  "uuid_v4 rd_platform = (\<lambda>d. (''id'' @ show_nat (rd_ids d), d\<lparr>rd_ids := Suc (rd_ids d)\<rparr>))"
  "rng_choose rd_platform = (\<lambda>xs d. (case xs of [] \<Rightarrow> None | x # _ \<Rightarrow> Some x, d))"
  "ephemeral_port rd_platform = (\<lambda>d. (Inr (of_nat (40000 + rd_ids d)), d\<lparr>rd_ids := Suc (rd_ids d)\<rparr>))"
  "bind_port rd_platform = (\<lambda>p d. (Inr (), d))"
  "status_created rd_platform = 1"
  "status_running rd_platform = 2"
  "status_stopped rd_platform = 3"
  "status_paused rd_platform = 4"
  "status_pausing rd_platform = 5"
  "json_parse rd_platform = (\<lambda>b. if b = ''m'' then Inr (JObject [(''config'', JObject [(''digest'', JString ''cfg'')])]) else Inl ''expected value'')"
  "parse_image_configuration rd_platform = (\<lambda>b. if b = ''c'' then Inr \<lparr>ig_config = None, ig_diff_ids = [''sha256:a'']\<rparr> else Inl ''missing field'')"
  "spec_to_json rd_platform = (\<lambda>s. os_version s)"
  "spec_of_json rd_platform = (\<lambda>x0. None)"
  "process_to_json rd_platform = (\<lambda>p. op_cwd p)"
  "spec_default rd_platform = \<lparr>os_version = [], os_process = None, os_root_path = [], os_root_readonly = True, os_namespaces = [], os_mounts = None, os_hooks = None\<rparr>"
  "default_namespaces rd_platform = [Ns_Pid, Ns_Network, Ns_Ipc, Ns_Uts, Ns_Mount, Ns_Cgroup]"
  "sha256_hex rd_platform = (\<lambda>b. show_nat (length b))"
  "metadata_value_ok rd_platform = list_all (\<lambda>c. 32 \<le> (of_char c :: nat) \<and> (of_char c :: nat) < 127)"
  "target_arch rd_platform = ''x86_64''"
  "home_dir rd_platform = Some ''/h''"
  "process_id rd_platform = 7"
  by (simp_all add: rd_platform_def)

lemma rd_clock_sleeps [simp]: "clock_sleeps rd_platform"
  by (simp add: clock_sleeps_def rd_platform_def)

lemma rd_task_op_clock: "(\<And>p d. rd_clock (snd (f p d)) = rd_clock d) \<Longrightarrow> rd_clock (snd (rd_task_op f k d)) = rd_clock d"
  by (auto simp: rd_task_op_def rd_err_def split: option.split)

lemma rd_clock_monotone [simp]: "clock_monotone rd_platform ns"
  unfolding clock_monotone_def calls_keep_def rpc_keeps_def
  by (intro allI conjI impI; simp add: rd_platform_def rd_err_def rd_task_op_clock rd_set_status_def split: option.split)

end
