(* ===== verification/Client_State.thy ===== *)
theory Client_State
  imports Reference_Daemon
begin

text \<open>
  The state a \<^verbatim>\<open>Client\<close> keeps beside the daemon (src/src/client.rs): the namespace it speaks for, the
  image metadata cache, the start times of tasks, the log tailers and the managed port forwards,
  all shared by the clones of a client.

  The tables are keyed by \<^verbatim>\<open><namespace>/<container_id>\<close>. The interface \<open>client_table\<close> is what the
  operations use of such a table; its client lemma is that containers do not see each other's
  entries, because the key is injective on valid identifiers.
\<close>

section \<open>Model\<close>

text \<open>\<^verbatim>\<open>Client::from_parts\<close>: the default namespace and empty shared state.\<close>

definition from_parts :: "'d \<Rightarrow> fs \<Rightarrow> string \<times> 'd world" where
  "from_parts d fl =
     (''default'', \<lparr>daemon = d, managed_handles = [], managed_tailers = Map.empty, image_metadata_cache = Map.empty,
        task_start_times = Map.empty, files = fl, exec_counter = 0\<rparr>)"

definition try_with_namespace :: "'d platform \<Rightarrow> string \<Rightarrow> string result" where
  "try_with_namespace P namespace =
     (if \<not> metadata_value_ok P namespace
      then Inl (InvalidArgument ''namespace is not valid as a gRPC metadata header value (ASCII visible chars only)'')
      else Inr namespace)"

definition clear_image_cache :: "'d world \<Rightarrow> 'd world" where
  "clear_image_cache w = w\<lparr>image_metadata_cache := Map.empty\<rparr>"

definition lookup_image_metadata :: "string \<Rightarrow> 'd world \<Rightarrow> image_metadata option" where
  "lookup_image_metadata manifest_digest w = image_metadata_cache w manifest_digest"

definition store_image_metadata :: "string \<Rightarrow> image_metadata \<Rightarrow> 'd world \<Rightarrow> 'd world" where
  "store_image_metadata manifest_digest metadata w =
     w\<lparr>image_metadata_cache := (image_metadata_cache w)(manifest_digest \<mapsto> metadata)\<rparr>"

definition ns_key :: "string \<Rightarrow> string \<Rightarrow> string" where
  "ns_key namespace container_id = namespace @ ''/'' @ container_id"

definition record_task_start :: "'d platform \<Rightarrow> string \<Rightarrow> string \<Rightarrow> 'd world \<Rightarrow> 'd world" where
  "record_task_start P ns container_id w =
     w\<lparr>task_start_times := (task_start_times w)(ns_key ns container_id \<mapsto> now P (daemon w))\<rparr>"

definition forget_task_start :: "string \<Rightarrow> string \<Rightarrow> 'd world \<Rightarrow> 'd world" where
  "forget_task_start ns container_id w =
     w\<lparr>task_start_times := (task_start_times w)(ns_key ns container_id := None)\<rparr>"

definition task_uptime :: "'d platform \<Rightarrow> string \<Rightarrow> string \<Rightarrow> 'd world \<Rightarrow> duration option" where
  "task_uptime P ns container_id w =
     map_option (\<lambda>start. elapsed P start w) (task_start_times w (ns_key ns container_id))"

text \<open>\<^verbatim>\<open>LogTailer::stop\<close>: signal, one last pass over both streams, and the task is gone.\<close>

definition tailer_stop :: "'d platform \<Rightarrow> log_set \<times> tailer \<Rightarrow> 'd world \<Rightarrow> 'd world" where
  "tailer_stop P lt w =
     (case drain_both (fst lt) (system_now P (daemon w)) (snd lt) (files w) of
        (_, _, _, f) \<Rightarrow> w\<lparr>files := f\<rparr>)"

definition start_managed_tailer :: "'d platform \<Rightarrow> string \<Rightarrow> string \<Rightarrow> ('d, unit) op" where
  "start_managed_tailer P ns container_id w =
     (case tailer_start (home_dir P) container_id of
        Inl e \<Rightarrow> (Inl e, w)
      | Inr ps \<Rightarrow>
        (let key = ns_key ns container_id;
             old = managed_tailers w key;
             w1 = w\<lparr>managed_tailers := (managed_tailers w)(key \<mapsto> (ps, tailer_default))\<rparr>
         in (Inr (), case old of None \<Rightarrow> w1 | Some lt \<Rightarrow> tailer_stop P lt w1)))"

definition stop_managed_tailer :: "'d platform \<Rightarrow> string \<Rightarrow> string \<Rightarrow> 'd world \<Rightarrow> 'd world" where
  "stop_managed_tailer P ns container_id w =
     (let key = ns_key ns container_id in
      case managed_tailers w key of
        None \<Rightarrow> w
      | Some lt \<Rightarrow> tailer_stop P lt (w\<lparr>managed_tailers := (managed_tailers w)(key := None)\<rparr>))"

text \<open>The handles of one container are taken out of the list and stopped; the others keep their order.\<close>

definition stop_managed_forwards :: "string \<Rightarrow> 'd world \<Rightarrow> 'd world" where
  "stop_managed_forwards container_id w =
     w\<lparr>managed_handles := filter (\<lambda>h. h_container_id h \<noteq> container_id) (managed_handles w)\<rparr>"

section \<open>Keys\<close>

lemma ns_key_inject:
  assumes "CHR ''/'' \<notin> set c" "CHR ''/'' \<notin> set d"
  shows "ns_key n c = ns_key m d \<longleftrightarrow> n = m \<and> c = d"
proof
  assume eq: "ns_key n c = ns_key m d"
  have "takeWhile (\<lambda>x. x \<noteq> CHR ''/'') (rev (ns_key n c)) = rev c" if "CHR ''/'' \<notin> set c" for n c
    using that takeWhile_component [of "rev c" "CHR ''/'' # rev n"] by (simp add: ns_key_def)
  with assms eq have "rev c = rev d" by metis
  with eq show "n = m \<and> c = d" by (simp add: ns_key_def)
qed simp

lemma ns_key_valid:
  "validate_identifier c = Inr () \<Longrightarrow> validate_identifier d = Inr () \<Longrightarrow> ns_key n c = ns_key m d \<longleftrightarrow> n = m \<and> c = d"
  by (rule ns_key_inject) (rule validate_identifier_no_slash, assumption)+

section \<open>Tables of client-side state\<close>

locale client_table =
  fixes tab :: "'w \<Rightarrow> string \<rightharpoonup> 'v"
    and set_tab :: "(string \<rightharpoonup> 'v) \<Rightarrow> 'w \<Rightarrow> 'w"
  assumes tab_set [simp]: "tab (set_tab t w) = t"
begin

definition entry :: "string \<Rightarrow> string \<Rightarrow> 'w \<Rightarrow> 'v option" where
  "entry n c w = tab w (ns_key n c)"

definition put :: "string \<Rightarrow> string \<Rightarrow> 'v option \<Rightarrow> 'w \<Rightarrow> 'w" where
  "put n c v w = set_tab ((tab w)(ns_key n c := v)) w"

lemma entry_put: "validate_identifier c = Inr () \<Longrightarrow> validate_identifier d = Inr () \<Longrightarrow>
    entry m d (put n c v w) = (if n = m \<and> c = d then v else entry m d w)"
  by (auto simp: entry_def put_def ns_key_valid)

lemma entry_put_same [simp]: "entry n c (put n c v w) = v"
  by (simp add: entry_def put_def)

end

interpretation start_times: client_table task_start_times "\<lambda>t w. w\<lparr>task_start_times := t\<rparr>"
  by unfold_locales simp

interpretation tailers: client_table managed_tailers "\<lambda>t w. w\<lparr>managed_tailers := t\<rparr>"
  by unfold_locales simp

lemma record_task_start_put: "record_task_start P n c w = start_times.put n c (Some (now P (daemon w))) w"
  and forget_task_start_put: "forget_task_start n c w = start_times.put n c None w"
  by (simp_all add: record_task_start_def forget_task_start_def start_times.put_def)

lemma task_uptime_entry: "task_uptime P n c w = map_option (\<lambda>s. elapsed P s w) (start_times.entry n c w)"
  by (simp add: task_uptime_def start_times.entry_def)

text \<open>A tailer's last pass only touches files.\<close>

lemma tailer_stop_frame [simp]:
  "managed_tailers (tailer_stop P lt w) = managed_tailers w" "task_start_times (tailer_stop P lt w) = task_start_times w"
  "daemon (tailer_stop P lt w) = daemon w" "managed_handles (tailer_stop P lt w) = managed_handles w"
  "image_metadata_cache (tailer_stop P lt w) = image_metadata_cache w"
  by (simp_all add: tailer_stop_def split: prod.split)

lemma start_managed_tailer_entry:
  assumes "tailer_start (home_dir P) c = Inr ps"
  shows "fst (start_managed_tailer P n c w) = Inr ()"
    and "managed_tailers (snd (start_managed_tailer P n c w)) = managed_tailers (tailers.put n c (Some (ps, tailer_default)) w)"
  using assms by (simp_all add: start_managed_tailer_def Let_def tailers.put_def split: option.split)

lemma stop_managed_tailer_entry:
  "managed_tailers (stop_managed_tailer P n c w) = managed_tailers (tailers.put n c None w)"
  by (auto simp: stop_managed_tailer_def Let_def tailers.put_def fun_upd_idem split: option.split)

section \<open>Properties\<close>

text \<open>
  C16: the start time recorded for a task is the one its uptime is measured from, until it is
  forgotten; recording or forgetting a task of another container, or of the same container id in
  another namespace, does not change it.
\<close>

theorem task_uptime_isolated:
  assumes "validate_identifier c = Inr ()" "validate_identifier d = Inr ()"
  shows "task_uptime P m d (record_task_start P n c w) =
      (if n = m \<and> c = d then Some 0 else task_uptime P m d w)
    \<and> task_uptime P m d (forget_task_start n c w) = (if n = m \<and> c = d then None else task_uptime P m d w)"
proof -
  have "elapsed P s (start_times.put n c v w) = elapsed P s w" for s v
    by (simp add: elapsed_def start_times.put_def)
  then show ?thesis
    by (simp add: task_uptime_entry record_task_start_put forget_task_start_put start_times.entry_put [OF assms])
      (simp add: elapsed_def)
qed

theorem task_uptime_isolated_witness:
  "\<forall>P w. task_uptime P ''prod'' ''c2'' (record_task_start P ''prod'' ''c1'' (forget_task_start ''dev'' ''c2'' w))
     = task_uptime P ''prod'' ''c2'' w"
proof -
  have v: "validate_identifier ''c1'' = Inr ()" "validate_identifier ''c2'' = Inr ()" by code_simp+
  show ?thesis
    by (simp add: task_uptime_isolated [OF v] task_uptime_isolated [OF v(2) v(2)])
qed

end
