(* ===== verification/Port_Forward.thy ===== *)
theory Port_Forward
  imports Client_State
begin

text \<open>
  Port bindings and user-space forwarding (src/src/port_forward.rs, and the two operations of
  src/src/client.rs that manage handles). Bindings are persisted as labels
  \<^verbatim>\<open>containerd-manager.port.<container_port> = <host_port>\<close>; \<open>parse_port_binding_labels\<close> reads them
  back. The accept loop of a forwarder is a step function over what its \<^verbatim>\<open>select!\<close> finds ready.
\<close>

section \<open>Binding labels\<close>

definition parse_binding :: "string \<times> string \<Rightarrow> (u16 \<times> u16) option" where
  "parse_binding = (\<lambda>(key, value).
     Option.bind (strip_prefix PORT_BINDING_LABEL_PREFIX key) (\<lambda>rest.
       Option.bind (parse_uint 16 rest) (\<lambda>container_port.
         Option.bind (parse_uint 16 value) (\<lambda>host_port.
           Some (of_nat host_port, of_nat container_port)))))"

definition parse_port_binding_labels :: "labels \<Rightarrow> (u16 \<times> u16) list" where
  "parse_port_binding_labels labels = List.map_filter parse_binding labels"

text \<open>The labels the creator of a container emits for its bindings (src/src/container.rs, lines 748-753).\<close>

definition port_label :: "u16 \<times> u16 \<Rightarrow> string \<times> string" where
  "port_label b = (PORT_BINDING_LABEL_PREFIX @ show_nat (unat (snd b)), show_nat (unat (fst b)))"

definition is_port_label :: "string \<Rightarrow> bool" where
  "is_port_label key \<longleftrightarrow> take (length PORT_BINDING_LABEL_PREFIX) key = PORT_BINDING_LABEL_PREFIX"

lemma is_port_label_strip: "is_port_label k \<longleftrightarrow> strip_prefix PORT_BINDING_LABEL_PREFIX k \<noteq> None"
  by (simp add: is_port_label_def strip_prefix_def)

lemma unat_u16: "unat (p :: u16) < 2 ^ 16"
  using unsigned_less [of p] by simp

lemma parse_port_label [simp]: "parse_binding (port_label b) = Some b"
  using parse_uint_show_nat [OF unat_u16] by (cases b) (simp add: parse_binding_def port_label_def)

lemma parse_bindings_member: "b \<in> set (parse_port_binding_labels ls) \<longleftrightarrow> (\<exists>kv\<in>set ls. parse_binding kv = Some b)"
  by (force simp: parse_port_binding_labels_def List.map_filter_def)

lemma parse_binding_port_label: "parse_binding (k, v) = Some b \<Longrightarrow> is_port_label k"
  by (auto simp: parse_binding_def is_port_label_strip bind_eq_Some_conv)

lemma port_label_inj: "fst (port_label a) = fst (port_label b) \<longleftrightarrow> snd a = snd b"
  by (simp add: port_label_def word_unat_eq_iff)

text \<open>
  Writing the labels of bindings with distinct container ports over labels without bindings, and
  reading them back, gives these bindings; labels of other kinds do not matter.
\<close>

lemma parse_bindings_extend:
  assumes "distinct (map fst ls)" "\<forall>(k, v)\<in>set ls. \<not> is_port_label k" "distinct (map snd bs)"
  shows "set (parse_port_binding_labels (hm_extend ls (map port_label bs))) = set bs"
proof -
  have d: "distinct (map fst (map port_label bs))"
    using assms(3) by (induction bs) (auto simp: port_label_inj image_iff)
  let ?m = "hm_extend ls (map port_label bs)"
  have mo: "map_of ?m k = Some v \<longleftrightarrow> (k, v) \<in> port_label ` set bs \<or> k \<notin> fst ` port_label ` set bs \<and> map_of ls k = Some v" for k v
    using map_of_hm_extend_distinct [OF d, of ls] map_of_eq_Some_iff [OF d]
    by (auto simp: map_add_Some_iff map_of_eq_None_iff image_image)
  have dm: "distinct (map fst ?m)" using assms(1) by simp
  show ?thesis
  proof (intro set_eqI iffI)
    fix b assume "b \<in> set (parse_port_binding_labels ?m)"
    then obtain k v where kv: "(k, v) \<in> set ?m" "parse_binding (k, v) = Some b"
      by (auto simp: parse_bindings_member)
    then have "map_of ?m k = Some v" using dm by simp
    moreover have "map_of ls k \<noteq> Some v"
      using assms(2) parse_binding_port_label [OF kv(2)] by (auto dest: map_of_SomeD)
    ultimately obtain b' where b': "b' \<in> set bs" "(k, v) = port_label b'" using mo by auto
    with kv parse_port_label [of b'] show "b \<in> set bs" by simp
  next
    fix b assume "b \<in> set bs"
    then have "map_of ?m (fst (port_label b)) = Some (snd (port_label b))" using mo by simp
    then have "port_label b \<in> set ?m" by (metis map_of_SomeD prod.collapse)
    then show "b \<in> set (parse_port_binding_labels ?m)"
      unfolding parse_bindings_member by (rule bexI [rotated]) simp
  qed
qed

lemma parse_bindings_set:
  "distinct (map fst ls) \<Longrightarrow>
     b \<in> set (parse_port_binding_labels ls) \<longleftrightarrow> (\<exists>k v. map_of ls k = Some v \<and> parse_binding (k, v) = Some b)"
  by (auto simp: parse_bindings_member)

lemma parse_bindings_insert [simp]:
  assumes "distinct (map fst ls)" "\<not> is_port_label k"
  shows "set (parse_port_binding_labels (hm_insert k v ls)) = set (parse_port_binding_labels ls)"
proof (intro set_eqI)
  fix b
  have "parse_binding (k, x) \<noteq> Some b" for x using assms(2) parse_binding_port_label by blast
  then show "b \<in> set (parse_port_binding_labels (hm_insert k v ls)) \<longleftrightarrow> b \<in> set (parse_port_binding_labels ls)"
    using assms(1) by (auto simp: parse_bindings_set simp del: map_of_eq_Some_iff) metis
qed

section \<open>Starting a forwarder\<close>

record port_forward_opts =
  pf_target_addr :: string

definition default_forward_opts :: port_forward_opts where
  "default_forward_opts = \<lparr>pf_target_addr = ''127.0.0.1''\<rparr>"

definition start_port_forward :: "'d platform \<Rightarrow> string \<Rightarrow> u16 \<Rightarrow> u16 \<Rightarrow> port_forward_opts \<Rightarrow> ('d, handle) op" where
  "start_port_forward P container_id host_port container_port opts =
     (if host_port = 0 then fail (PortForward ''host_port cannot be 0'')
      else if container_port = 0 then fail (PortForward ''container_port cannot be 0'')
      else with_daemon (bind_port P host_port) (\<lambda>r. case r of
          Inl (Bind_Failed e) \<Rightarrow> fail (PortForward (''failed to bind port '' @ show_nat (unat host_port) @ '': '' @ e))
        | Inl (Nonblocking_Failed e) \<Rightarrow> fail (PortForward (''failed to set non-blocking on port '' @ show_nat (unat host_port) @ '': '' @ e))
        | Inl (Listener_Failed e) \<Rightarrow> fail (PortForward (''failed to create tokio listener: '' @ e))
        | Inr _ \<Rightarrow> ret \<lparr>h_container_id = container_id, h_host_port = host_port, h_container_port = container_port,
            h_target = pf_target_addr opts @ '':'' @ show_nat (unat container_port)\<rparr>))"

definition start_managed_port_forward :: "'d platform \<Rightarrow> string \<Rightarrow> u16 \<Rightarrow> u16 \<Rightarrow> port_forward_opts \<Rightarrow> ('d, unit) op" where
  "start_managed_port_forward P container_id host_port container_port opts =
     bind (start_port_forward P container_id host_port container_port opts)
       (\<lambda>h w. (Inr (), w\<lparr>managed_handles := managed_handles w @ [h]\<rparr>))"

section \<open>The accept loop\<close>

text \<open>What one \<^verbatim>\<open>select!\<close> finds ready: the stop signal, an accepted connection or an accept error, a finished connection.\<close>

record fwd_ready =
  fr_shutdown :: bool
  fr_accept :: "(unit + nat) option"
  fr_joined :: "nat option"

datatype fwd_state = Listening "nat list" | Closed

definition fwd_step :: "fwd_ready \<Rightarrow> fwd_state \<Rightarrow> fwd_state" where
  "fwd_step r st = (case st of
      Closed \<Rightarrow> Closed
    | Listening connections \<Rightarrow>
        if fr_shutdown r then Closed
        else (case fr_accept r of
            Some (Inr conn) \<Rightarrow> Listening (connections @ [conn])
          | Some (Inl _) \<Rightarrow> Listening connections
          | None \<Rightarrow> (case fr_joined r of
              Some conn \<Rightarrow> Listening (remove1 conn connections)
            | None \<Rightarrow> Listening connections)))"

definition fwd_run :: "fwd_ready list \<Rightarrow> fwd_state \<Rightarrow> fwd_state" where
  "fwd_run rs st = fold fwd_step rs st"

text \<open>
  \<^verbatim>\<open>PortForwardHandle::stop\<close> sends the signal and awaits the round that sees it; dropping the handle aborts
  the task, and with it its connections, wherever it is.
\<close>

definition handle_stop :: "fwd_state \<Rightarrow> fwd_state" where
  "handle_stop st = fwd_step \<lparr>fr_shutdown = True, fr_accept = None, fr_joined = None\<rparr> st"

definition handle_drop :: "fwd_state \<Rightarrow> fwd_state" where
  "handle_drop st = Closed"

lemma fwd_run_Closed [simp]: "fwd_run rs Closed = Closed"
  by (induction rs) (simp_all add: fwd_run_def fwd_step_def)

section \<open>Properties\<close>

text \<open>
  A stop signal wins over pending connections: in the round it is seen the forwarder closes,
  whatever is ready beside it, and it never accepts or listens again.
\<close>

lemma forwarder_stops:
  assumes "fr_shutdown r"
  shows "fwd_run (before @ r # after) st = Closed"
  using assms by (cases "fold fwd_step before st") (simp_all add: fwd_run_def fwd_step_def, simp_all flip: fwd_run_def)

text \<open>After a stop, as after a drop, the port is free, whatever would have been ready.\<close>

lemma handle_stop_closes: "fwd_run rs (handle_stop (fwd_run before st)) = fwd_run rs (handle_drop (fwd_run before st))"
  by (cases "fwd_run before st") (simp_all add: handle_stop_def handle_drop_def fwd_step_def)

end
