(* ===== verification/Inspect.thy ===== *)
theory Inspect
  imports Port_Forward
begin

text \<open>
  Reading containers back: src/src/inspect.rs, src/src/list.rs and the record types of
  src/src/types.rs. A task's wire status is compared with the values of the status enumeration of
  containerd's API, which are fields of the platform; exit codes are 32-bit words read as signed.
\<close>

section \<open>Types\<close>

datatype task_status = Running | Stopped | Paused | Unknown

definition task_status_from :: "'d platform \<Rightarrow> int \<Rightarrow> task_status" where
  "task_status_from P x =
     (if x = status_running P then Running
      else if x = status_stopped P then Stopped
      else if x = status_paused P then Paused
      else if x = status_pausing P then Paused
      else if x = status_created P then Running
      else Unknown)"

text \<open>Exit codes are \<^verbatim>\<open>i32\<close> values.\<close>

record task_info =
  ti_pid :: u32
  ti_status :: task_status
  ti_exit_code :: "int option"

record container_info =
  ci_id :: container_id
  ci_name :: string
  ci_image :: string
  ci_labels :: labels
  ci_env :: labels
  ci_mounts :: "(string \<times> string) list"
  ci_task :: "task_info option"
  ci_port_forwards :: "(u16 \<times> u16) list"

section \<open>Inspect\<close>

definition parse_env_vars :: "string list \<Rightarrow> labels" where
  "parse_env_vars env = hm_extend [] (List.map_filter (split_once (CHR ''='')) env)"

definition extract_mounts :: "oci_spec \<Rightarrow> (string \<times> string) list" where
  "extract_mounts spec =
     (case os_mounts spec of
        None \<Rightarrow> []
      | Some ms \<Rightarrow> map (\<lambda>m. (case om_source m of None \<Rightarrow> [] | Some s \<Rightarrow> s, om_destination m)) ms)"

definition container_to_info :: "'d platform \<Rightarrow> container_msg \<Rightarrow> task_info option \<Rightarrow> container_info result" where
  "container_to_info P container task =
     (let labels = cm_labels container;
          port_forwards = parse_port_binding_labels labels;
          (env, mounts) =
            (case cm_spec container of
               None \<Rightarrow> ([], [])
             | Some spec_any \<Rightarrow>
               (case spec_of_json P (any_value spec_any) of
                  None \<Rightarrow> ([], [])
                | Some spec \<Rightarrow>
                  (case Option.bind (os_process spec) op_env of None \<Rightarrow> [] | Some e \<Rightarrow> parse_env_vars e,
                   extract_mounts spec)));
          name = (case map_of labels NAME_LABEL of
                    Some n \<Rightarrow> n
                  | None \<Rightarrow> (case map_of labels ''nerdctl/name'' of Some n \<Rightarrow> n | None \<Rightarrow> cm_id container))
      in result_bind (from_existing (cm_id container)) (\<lambda>cid.
           Inr \<lparr>ci_id = cid, ci_name = name, ci_image = cm_image container, ci_labels = labels, ci_env = env,
                ci_mounts = mounts, ci_task = task, ci_port_forwards = port_forwards\<rparr>))"

text \<open>\<^verbatim>\<open>i32::try_from(u32)\<close>, saturating.\<close>

definition exit_code_saturating :: "u32 \<Rightarrow> int" where
  "exit_code_saturating x = (if unat x < 2 ^ 31 then int (unat x) else 2 ^ 31 - 1)"

definition get_task_info :: "'d platform \<Rightarrow> string \<Rightarrow> string \<Rightarrow> 'd world \<Rightarrow> task_info option \<times> 'd world" where
  "get_task_info P ns container_id w =
     (case rpc_call (tasks_get P ns container_id []) w of
        (Inl _, w') \<Rightarrow> (None, w')
      | (Inr None, w') \<Rightarrow> (None, w')
      | (Inr (Some process), w') \<Rightarrow>
        (let status = task_status_from P (pm_status process)
         in (Some \<lparr>ti_pid = pm_pid process, ti_status = status,
                   ti_exit_code = (if status = Stopped then Some (exit_code_saturating (pm_exit_status process)) else None)\<rparr>, w')))"

definition not_found_or :: "error \<Rightarrow> string \<Rightarrow> status \<Rightarrow> error" where
  "not_found_or e op s = (if status_code s = Code_NotFound then e else into_crate_error s op)"

definition get_container :: "'d platform \<Rightarrow> string \<Rightarrow> string \<Rightarrow> ('d, container_msg) op" where
  "get_container P ns container_id =
     bind (call (containers_get P ns container_id) (not_found_or (ContainerNotFound container_id) ''get_container''))
       (\<lambda>resp. from_result (ok_or resp (ContainerNotFound container_id)))"

definition inspect_container :: "'d platform \<Rightarrow> string \<Rightarrow> string \<Rightarrow> ('d, container_info) op" where
  "inspect_container P ns container_id =
     bind (get_container P ns container_id) (\<lambda>container w.
       (case get_task_info P ns (cm_id container) w of
          (task, w') \<Rightarrow> (container_to_info P container task, w')))"

definition name_filter :: "string \<Rightarrow> string" where
  "name_filter name = ''labels.'' @ [CHR 0x22] @ NAME_LABEL @ [CHR 0x22] @ ''=='' @ name"

text \<open>\<^verbatim>\<open>Vec::pop\<close> takes the last container of the answer.\<close>

definition resolve_name :: "'d platform \<Rightarrow> string \<Rightarrow> string \<Rightarrow> ('d, container_id) op" where
  "resolve_name P ns name =
     bind (call (containers_list P ns [name_filter name]) (\<lambda>s. into_crate_error s ''resolve_name''))
       (\<lambda>containers. from_result
          (result_bind (if containers = [] then Inl (ContainerNotFound name) else Inr (last containers))
             (\<lambda>first. from_existing (cm_id first))))"

section \<open>List\<close>

definition build_label_filter :: "string \<Rightarrow> string option" where
  "build_label_filter label_filter =
     map_option (\<lambda>(k, v). ''labels.'' @ [CHR 0x22] @ k @ [CHR 0x22] @ ''=='' @ v) (split_once (CHR ''='') label_filter)"

fun join :: "string \<Rightarrow> string list \<Rightarrow> string" where
  "join sep [] = []"
| "join sep [x] = x"
| "join sep (x # y # ys) = x @ sep @ join sep (y # ys)"

definition build_list_request :: "string list \<Rightarrow> string list" where
  "build_list_request label_filters =
     (let parsed = List.map_filter build_label_filter label_filters
      in if parsed = [] then [] else [join '','' parsed])"

text \<open>\<^verbatim>\<open>as i32\<close> keeps the bits.\<close>

definition exit_code_wrapping :: "u32 \<Rightarrow> int" where
  "exit_code_wrapping x = sint x"

definition fetch_task_map :: "'d platform \<Rightarrow> string \<Rightarrow> 'd world \<Rightarrow> (string \<rightharpoonup> task_info) \<times> 'd world" where
  "fetch_task_map P ns w =
     (case rpc_call (tasks_list P ns []) w of
        (Inl _, w') \<Rightarrow> (Map.empty, w')
      | (Inr tasks, w') \<Rightarrow>
        (map_of (rev (map (\<lambda>p. (pm_container_id p,
            (let status = task_status_from P (pm_status p)
             in \<lparr>ti_pid = pm_pid p, ti_status = status,
                 ti_exit_code = (if status = Stopped then Some (exit_code_wrapping (pm_exit_status p)) else None)\<rparr>))) tasks)), w'))"

definition list_containers :: "'d platform \<Rightarrow> string \<Rightarrow> string list \<Rightarrow> ('d, container_info list) op" where
  "list_containers P ns label_filters =
     bind (call (containers_list P ns (build_list_request label_filters)) (\<lambda>s. into_crate_error s ''list_containers''))
       (\<lambda>containers w.
          (case fetch_task_map P ns w of
             (tasks, w') \<Rightarrow> (collect_results (map (\<lambda>c. container_to_info P c (tasks (cm_id c))) containers), w')))"

section \<open>What the code relies on\<close>

text \<open>The five status values of the task API that the code names are different numbers.\<close>

definition wire_ok :: "'d platform \<Rightarrow> bool" where
  "wire_ok P \<longleftrightarrow> distinct [status_running P, status_stopped P, status_paused P, status_pausing P, status_created P]"

lemma task_status_from_wire:
  assumes "wire_ok P"
  shows "task_status_from P (status_running P) = Running" "task_status_from P (status_stopped P) = Stopped"
    "task_status_from P (status_paused P) = Paused" "task_status_from P (status_pausing P) = Paused"
    "task_status_from P (status_created P) = Running"
  using assms by (auto simp: wire_ok_def task_status_from_def)

lemma exit_codes_agree:
  assumes "unat x < 2 ^ 31"
  shows "exit_code_wrapping x = exit_code_saturating x"
proof -
  have "unat x < 2147483648" using assms by simp
  then have "int (unat x) < 2147483648" by linarith
  then have "uint x < 2147483648" by simp
  moreover have "- 2147483648 \<le> uint x" by (rule order_trans [OF _ unsigned_greater_eq]) simp
  ultimately have "signed_take_bit 31 (uint x) = uint x"
    by (intro signed_take_bit_int_eq_self) simp_all
  then show ?thesis using assms by (simp add: exit_code_wrapping_def exit_code_saturating_def sint_uint)
qed

text \<open>Past the range of \<^verbatim>\<open>i32\<close> one code path saturates and the other wraps.\<close>

lemma exit_codes_differ:
  assumes "2 ^ 31 \<le> unat x"
  shows "exit_code_saturating x = 2 ^ 31 - 1" "exit_code_wrapping x = int (unat x) - 2 ^ 32"
proof -
  show "exit_code_saturating x = 2 ^ 31 - 1" using assms by (simp add: exit_code_saturating_def)
  have "2147483648 \<le> unat x" using assms by simp
  then have "2147483648 \<le> int (unat x)" by linarith
  then have ge: "2147483648 \<le> uint x" by simp
  have lt: "uint x < 4294967296" using uint_range_size [of x] by (simp add: word_size)
  have "signed_take_bit 31 (uint x) = signed_take_bit 31 (uint x - 2 ^ 32)"
    by (simp add: signed_take_bit_eq_iff_take_bit_eq take_bit_eq_mod)
  also have "\<dots> = uint x - 2 ^ 32"
    using ge lt by (intro signed_take_bit_int_eq_self) simp_all
  finally show "exit_code_wrapping x = int (unat x) - 2 ^ 32"
    by (simp add: exit_code_wrapping_def sint_uint)
qed

text \<open>The task a listing shows for a container.\<close>

lemma fetch_task_map_member:
  assumes "tasks_list P ns [] (daemon w) = (Inr ps, d)" "distinct (map pm_container_id ps)" "p \<in> set ps"
  shows "fst (fetch_task_map P ns w) (pm_container_id p) = Some
    \<lparr>ti_pid = pm_pid p, ti_status = task_status_from P (pm_status p),
     ti_exit_code = (if task_status_from P (pm_status p) = Stopped then Some (exit_code_wrapping (pm_exit_status p)) else None)\<rparr>"
proof -
  let ?f = "\<lambda>p. (pm_container_id p, (let status = task_status_from P (pm_status p)
      in \<lparr>ti_pid = pm_pid p, ti_status = status,
          ti_exit_code = (if status = Stopped then Some (exit_code_wrapping (pm_exit_status p)) else None)\<rparr>))"
  have "distinct (map fst (rev (map ?f ps)))"
    using assms(2) by (simp add: rev_map [symmetric] comp_def del: rev_map)
  moreover have "?f p \<in> set (rev (map ?f ps))" using assms(3) by simp
  ultimately have "map_of (rev (map ?f ps)) (fst (?f p)) = Some (snd (?f p))"
    by (intro map_of_is_SomeI) simp_all
  with assms(1) show ?thesis by (simp add: fetch_task_map_def rpc_call_def Let_def)
qed

section \<open>Properties\<close>

text \<open>
  C17: a listing and an inspection of the same container report the same task (pid, status and exit
  code) unless it stopped with an exit status of 2 to the power 31 or more; then they disagree, as
  one saturates the code and the other wraps it.
\<close>

theorem list_and_inspect_agree:
  assumes "tasks_get P ns (pm_container_id p) [] (daemon w) = (Inr (Some p), d1)"
    and "tasks_list P ns [] (daemon w) = (Inr ps, d2)" "distinct (map pm_container_id ps)" "p \<in> set ps"
  shows "fst (get_task_info P ns (pm_container_id p) w) = fst (fetch_task_map P ns w) (pm_container_id p)
    \<longleftrightarrow> \<not> (task_status_from P (pm_status p) = Stopped \<and> 2 ^ 31 \<le> unat (pm_exit_status p))"
proof -
  have "exit_code_saturating (pm_exit_status p) = exit_code_wrapping (pm_exit_status p)
      \<longleftrightarrow> \<not> 2 ^ 31 \<le> unat (pm_exit_status p)"
  proof (cases "2 ^ 31 \<le> unat (pm_exit_status p)")
    case True
    have "int (unat (pm_exit_status p)) < 2 ^ 32"
      using uint_range_size [of "pm_exit_status p"] by (simp add: word_size)
    then have "exit_code_wrapping (pm_exit_status p) < 0" using exit_codes_differ(2) [OF True] by simp
    with exit_codes_differ(1) [OF True] True show ?thesis by simp
  next
    case False
    with exit_codes_agree [of "pm_exit_status p"] show ?thesis by simp
  qed
  then show ?thesis
    using assms(1) by (auto simp: fetch_task_map_member [OF assms(2-4)] get_task_info_def rpc_call_def Let_def)
qed

theorem list_and_inspect_agree_witness:
  "fst (get_task_info rd_platform ''n'' ''c'' (rd_world (rd_init\<lparr>rd_tasks :=
       [(''n/c'', \<lparr>pm_container_id = ''c'', pm_pid = 7, pm_status = 3, pm_exit_status = 137\<rparr>)]\<rparr>)))
   = fst (fetch_task_map rd_platform ''n'' (rd_world (rd_init\<lparr>rd_tasks :=
       [(''n/c'', \<lparr>pm_container_id = ''c'', pm_pid = 7, pm_status = 3, pm_exit_status = 137\<rparr>)]\<rparr>))) ''c''"
proof -
  let ?p = "\<lparr>pm_container_id = ''c'', pm_pid = 7, pm_status = 3, pm_exit_status = 137\<rparr>"
  let ?w = "rd_world (rd_init\<lparr>rd_tasks := [(''n/c'', ?p)]\<rparr>)"
  have "tasks_get rd_platform ''n'' ''c'' [] (daemon ?w) = (Inr (Some ?p), daemon ?w)"
    "tasks_list rd_platform ''n'' [] (daemon ?w) = (Inr [?p], daemon ?w)"
    by (simp_all add: rd_platform_def rd_world_def rd_init_def rd_key_def rd_in_ns_def)
  from list_and_inspect_agree [of rd_platform "''n''" ?p ?w, simplified, OF this] show ?thesis by simp
qed

end
