(* ===== verification/Bridge.thy ===== *)
theory Bridge
  imports Inspect
begin

unbundle bit_operations_syntax

text \<open>
  Bridge networking (src/src/bridge.rs): the allocation of an address in \<^verbatim>\<open>10.88.1.0/24\<close> from the
  labels of the existing containers, the derived interface name, and the text of the three OCI hook
  scripts. The random choice is a field of the platform that picks from the list of candidates; the
  allocation lock is the subject of \<open>Concurrent_Create\<close>.
\<close>

section \<open>Addresses\<close>

fun split_on :: "char \<Rightarrow> string \<Rightarrow> string list" where
  "split_on c [] = [[]]"
| "split_on c (x # xs) =
     (if x = c then [] # split_on c xs
      else (case split_on c xs of [] \<Rightarrow> [[x]] | p # ps \<Rightarrow> (x # p) # ps))"

text \<open>One part of a dotted quad as \<^verbatim>\<open>Ipv4Addr::from_str\<close> reads it: one to three digits, no leading zero, at most 255.\<close>

definition parse_quad_part :: "string \<Rightarrow> u8 option" where
  "parse_quad_part s =
     (if s \<noteq> [] \<and> length s \<le> 3 \<and> list_all is_digit s \<and> (length s = 1 \<or> hd s \<noteq> CHR ''0'') \<and> digits_val s \<le> 255
      then Some (of_nat (digits_val s)) else None)"

definition ipv4_from_str :: "string \<Rightarrow> (u8 \<times> u8 \<times> u8 \<times> u8) option" where
  "ipv4_from_str s =
     (case map parse_quad_part (split_on (CHR ''.'') s) of
        [Some a, Some b, Some c, Some d] \<Rightarrow> Some (a, b, c, d)
      | _ \<Rightarrow> None)"

definition parse_octet :: "string \<Rightarrow> u8 option" where
  "parse_octet ip = map_option (\<lambda>(_, _, _, d). d) (ipv4_from_str ip)"

text \<open>The octets 2 to 254 that are not in use.\<close>

definition free_octets :: "u8 list \<Rightarrow> u8 list" where
  "free_octets used = filter (\<lambda>oc. oc \<notin> set used) (map of_nat [2..<255])"

definition pick_free_octet :: "'d platform \<Rightarrow> u8 list \<Rightarrow> ('d, u8) op" where
  "pick_free_octet P used =
     with_daemon (rng_choose P (free_octets used)) (\<lambda>r. case r of
        Some oc \<Rightarrow> ret oc
      | None \<Rightarrow> fail (ResourceExhausted (''no free bridge IPs in '' @ CONTAINER_SUBNET_PREFIX @ ''.0/24 (''
                  @ show_nat (length (remdups used)) @ '' octets in use)'')))"

definition used_octets :: "'d platform \<Rightarrow> string \<Rightarrow> ('d, u8 list) op" where
  "used_octets P ns =
     bind (call (containers_list P ns []) (\<lambda>s. into_crate_error s ''list_containers''))
       (\<lambda>containers. ret (List.map_filter parse_octet
          (List.map_filter (\<lambda>c. map_of (cm_labels c) BRIDGE_IP_LABEL) containers)))"

definition bridge_ip :: "u8 \<Rightarrow> string" where
  "bridge_ip oc = CONTAINER_SUBNET_PREFIX @ ''.'' @ show_nat (unat oc)"

definition alloc_bridge_ip :: "'d platform \<Rightarrow> string \<Rightarrow> ('d, string) op" where
  "alloc_bridge_ip P ns =
     bind (used_octets P ns) (\<lambda>used. bind (pick_free_octet P used) (\<lambda>oc. ret (bridge_ip oc)))"

definition pick_free_port :: "'d platform \<Rightarrow> ('d, u16) op" where
  "pick_free_port P =
     with_daemon (ephemeral_port P) (\<lambda>r. case r of
        Inl (Ephemeral_Bind e) \<Rightarrow> fail (ResourceExhausted (''could not bind ephemeral host port: '' @ e))
      | Inl (Ephemeral_Addr e) \<Rightarrow> fail (ResourceExhausted (''could not read ephemeral port local_addr: '' @ e))
      | Inr port \<Rightarrow> ret port)"

section \<open>Names\<close>

definition hex_digit :: "nat \<Rightarrow> char" where
  "hex_digit d = (if d < 10 then digit_char d else char_of (87 + d))"

fun show_hex :: "nat \<Rightarrow> string" where
  "show_hex n = (if n < 16 then [hex_digit n] else show_hex (n div 16) @ [hex_digit (n mod 16)])"

declare show_hex.simps [simp del]

definition fnv1a :: "bytes \<Rightarrow> u64" where
  "fnv1a bs = foldl (\<lambda>h b. (h XOR of_nat (of_char b)) * 0x100000001b3) 0xcbf29ce484222325 bs"

definition veth_name :: "string \<Rightarrow> string" where
  "veth_name container_id =
     ''cm'' @ pad_left 13 (CHR ''0'') (show_hex (unat (fnv1a container_id AND 0x000fffffffffffff)))"

definition socat_pid_file :: "string \<Rightarrow> u16 \<Rightarrow> string" where
  "socat_pid_file container_id container_port =
     ''/tmp/socat-'' @ container_id @ ''-'' @ show_nat (unat container_port) @ ''.pid''"

definition socat_log_file :: "string \<Rightarrow> u16 \<Rightarrow> string" where
  "socat_log_file container_id container_port =
     ''/tmp/socat-'' @ container_id @ ''-'' @ show_nat (unat container_port) @ ''.log''"

section \<open>Hook scripts\<close>

definition dquote :: string where "dquote = [CHR 0x22]"

definition unlines :: "string list \<Rightarrow> string" where
  "unlines ls = concat (map (\<lambda>l. l @ [newline]) ls)"

definition nerdctl_dir :: "string \<Rightarrow> string \<Rightarrow> string" where
  "nerdctl_dir namespace container_id = ''/var/lib/nerdctl/1935db59/containers/'' @ namespace @ ''/'' @ container_id"

definition nerdctl_network_config_script :: "string \<Rightarrow> string \<Rightarrow> (u16 \<times> u16) list \<Rightarrow> string" where
  \<open>nerdctl_network_config_script namespace container_id host_container_pairs =
     (if host_container_pairs = [] then []
      else
       (let entries = map (\<lambda>(hp, cp). ''{"HostPort":'' @ show_nat (unat hp) @ '',"ContainerPort":'' @ show_nat (unat cp)
                @ '',"Protocol":"tcp","HostIP":"0.0.0.0"}'') host_container_pairs;
            json = ''{"portMappings":['' @ join '','' entries @ '']}''
        in unlines
         [[],
          ''# nerdctl compat: write port-mapping config so `nerdctl ps` shows PORTS.'',
          ''NERDCTL_DIR="'' @ nerdctl_dir namespace container_id @ dquote,
          ''mkdir -p "$NERDCTL_DIR" 2>/dev/null && chmod 700 "$NERDCTL_DIR" 2>/dev/null || true'',
          ''cat > "$NERDCTL_DIR/network-config.json" 2>/dev/null <<'NERDCTL_EOF' || true'',
          json,
          ''NERDCTL_EOF'',
          ''chmod 600 "$NERDCTL_DIR/network-config.json" 2>/dev/null || true'']))\<close>

definition prestart_hook_script :: "string \<Rightarrow> string \<Rightarrow> string \<Rightarrow> (u16 \<times> u16) list \<Rightarrow> string" where
  \<open>prestart_hook_script container_ip container_id namespace host_container_pairs =
     unlines
      [[],
       ''STATE=$(cat)'',
       ''CONTAINER_PID=$(echo "$STATE" | python3 -c "import sys,json; d=json.load(sys.stdin); print(d.get('pid',0))")'',
       ''HOST_VETH="'' @ veth_name container_id @ dquote,
       ''BRIDGE="'' @ BRIDGE_NAME @ dquote,
       ''GATEWAY="'' @ BRIDGE_GATEWAY @ dquote,
       ''CONTAINER_IP="'' @ container_ip @ dquote,
       [],
       ''ip link show "$BRIDGE" >/dev/null 2>&1 || ip link add "$BRIDGE" type bridge'',
       ''ip addr add "$GATEWAY/16" dev "$BRIDGE" 2>/dev/null || true'',
       ''ip link set "$BRIDGE" up'',
       [],
       ''# `netns` option places the peer in the container's netns directly, so '' @ [CHR 0x27] @ ''eth0'' @ [CHR 0x27],
       ''# never appears in the host namespace (which would conflict with the VM NIC).'',
       ''ip link add "$HOST_VETH" type veth peer name eth0 netns /proc/$CONTAINER_PID/ns/net'',
       ''ip link set "$HOST_VETH" master "$BRIDGE"'',
       ''ip link set "$HOST_VETH" up'',
       [],
       ''nsenter --net=/proc/$CONTAINER_PID/ns/net ip addr add "$CONTAINER_IP/16" dev eth0'',
       ''nsenter --net=/proc/$CONTAINER_PID/ns/net ip link set eth0 up'',
       ''nsenter --net=/proc/$CONTAINER_PID/ns/net ip link set lo up'',
       ''nsenter --net=/proc/$CONTAINER_PID/ns/net ip route add default via "$GATEWAY" 2>/dev/null || true'',
       [],
       ''sysctl -w net.ipv4.ip_forward=1 >/dev/null'',
       ''iptables -t nat -C POSTROUTING -s 10.88.0.0/16 ! -d 10.88.0.0/16 -j MASQUERADE 2>/dev/null || '' @ [CHR 0x5C],
       ''  iptables -t nat -A POSTROUTING -s 10.88.0.0/16 ! -d 10.88.0.0/16 -j MASQUERADE'']
     @ nerdctl_network_config_script namespace container_id host_container_pairs\<close>

definition poststart_block :: "string \<Rightarrow> string \<Rightarrow> u16 \<times> u16 \<Rightarrow> string" where
  \<open>poststart_block container_id container_ip = (\<lambda>(container_port, host_port).
     (let pid_file = socat_pid_file container_id container_port;
          log_file = socat_log_file container_id container_port
      in unlines
       [''nohup /usr/bin/socat TCP-LISTEN:'' @ show_nat (unat host_port) @ '',fork,reuseaddr TCP:'' @ container_ip @ '':''
          @ show_nat (unat container_port) @ '' '' @ [CHR 0x5C],
        ''  >'' @ log_file @ '' 2>&1 &'',
        ''SOCAT_PID=$!'',
        ''echo $SOCAT_PID > '' @ pid_file,
        ''# Give socat a moment to fail-fast on exec / bind errors.'',
        ''sleep 0.1'',
        ''if ! kill -0 $SOCAT_PID 2>/dev/null; then'',
        ''echo "poststart: socat $SOCAT_PID exited (port '' @ show_nat (unat host_port) @ '')" >&2'',
        ''cat '' @ log_file @ '' >&2 2>/dev/null || true'',
        ''rm -f '' @ pid_file,
        ''exit 1'',
        ''fi'']))\<close>

definition poststart_hook_script :: "string \<Rightarrow> string \<Rightarrow> (u16 \<times> u16) list \<Rightarrow> string" where
  "poststart_hook_script container_id container_ip ports =
     [newline] @ concat (map (poststart_block container_id container_ip) ports)"

definition poststop_block :: "string \<Rightarrow> u16 \<times> u16 \<Rightarrow> string" where
  \<open>poststop_block container_id = (\<lambda>(container_port, _).
     (let pid_file = socat_pid_file container_id container_port;
          log_file = socat_log_file container_id container_port
      in unlines
       [''SOCAT_PID=$(cat '' @ pid_file @ '' 2>/dev/null || echo)'',
        ''if [ -n "$SOCAT_PID" ]; then'',
        ''kill $SOCAT_PID 2>/dev/null || true'',
        ''for i in 1 2 3 4 5; do'',
        ''kill -0 $SOCAT_PID 2>/dev/null || break'',
        ''sleep 0.1'',
        ''done'',
        ''kill -9 $SOCAT_PID 2>/dev/null || true'',
        ''fi'',
        ''rm -f '' @ pid_file @ '' '' @ log_file]))\<close>

definition poststop_hook_script :: "string \<Rightarrow> string \<Rightarrow> (u16 \<times> u16) list \<Rightarrow> string" where
  \<open>poststop_hook_script container_id namespace ports =
     [newline] @ concat (map (poststop_block container_id) ports)
     @ unlines [''ip link delete "'' @ veth_name container_id @ dquote @ '' 2>/dev/null || true'',
                ''rm -rf "'' @ nerdctl_dir namespace container_id @ dquote @ '' 2>/dev/null || true'']\<close>

section \<open>Lemmas\<close>

lemma split_on_first [simp]: "c \<notin> set a \<Longrightarrow> split_on c (a @ c # b) = a # split_on c b"
  by (induction a) auto

lemma split_on_none [simp]: "c \<notin> set a \<Longrightarrow> split_on c a = [a]"
  by (induction a) auto

lemma show_nat_hd: "0 < n \<Longrightarrow> hd (show_nat n) \<noteq> CHR ''0''"
proof (induction n rule: show_nat.induct)
  case (1 n)
  show ?case
  proof (cases "n < 10")
    case True
    with 1 have "of_char (digit_char n) \<noteq> (of_char (CHR ''0'') :: nat)" by simp
    then have "digit_char n \<noteq> CHR ''0''" by metis
    with True show ?thesis by (subst show_nat.simps) simp
  next
    case False
    with 1 show ?thesis by (subst show_nat.simps) (simp add: hd_append)
  qed
qed

lemma parse_quad_part_show_nat [simp]: "n < 256 \<Longrightarrow> parse_quad_part (show_nat n) = Some (of_nat n)"
proof -
  assume n: "n < 256"
  have "length (show_nat n) = 1 \<or> hd (show_nat n) \<noteq> CHR ''0''"
    by (cases "n = 0") (simp_all add: show_nat_hd show_nat.simps [of 0])
  with n show ?thesis
    using show_nat_length [of n 3] show_nat_digits [of n] by (simp add: parse_quad_part_def)
qed

lemma parse_octet_bridge_ip [simp]: "parse_octet (bridge_ip oc) = Some oc"
proof -
  have "unat oc < 256" using unsigned_less [of oc] by simp
  moreover have "bridge_ip oc = ''10'' @ CHR ''.'' # ''88'' @ CHR ''.'' # ''1'' @ CHR ''.'' # show_nat (unat oc)"
    by (simp add: bridge_ip_def CONTAINER_SUBNET_PREFIX_def)
  moreover have "split_on (CHR ''.'') (''10'' @ CHR ''.'' # ''88'' @ CHR ''.'' # ''1'' @ CHR ''.'' # show_nat (unat oc))
      = [''10'', ''88'', ''1'', show_nat (unat oc)]"
    by simp
  moreover have "parse_quad_part ''10'' = Some 10" "parse_quad_part ''88'' = Some 88" "parse_quad_part ''1'' = Some 1"
    by (simp_all add: parse_quad_part_def digits_val_def digit_val_def is_digit_def)
  ultimately show ?thesis by (simp add: parse_octet_def ipv4_from_str_def)
qed

lemma set_free_octets: "oc \<in> set (free_octets used) \<longleftrightarrow> oc \<notin> set used \<and> 2 \<le> unat oc \<and> unat oc \<le> 254"
proof -
  have "oc \<in> of_nat ` {2..<255} \<longleftrightarrow> 2 \<le> unat oc \<and> unat oc \<le> 254"
  proof
    assume "2 \<le> unat oc \<and> unat oc \<le> 254"
    then have "oc = of_nat (unat oc)" "unat oc \<in> {2..<255}" by simp_all
    then show "oc \<in> of_nat ` {2..<255}" by blast
  next
    assume "oc \<in> of_nat ` {2..<255}"
    then obtain n where n: "n \<in> {2..<255}" "oc = of_nat n" by blast
    then have "unat oc = n" by (simp add: unat_of_nat)
    with n show "2 \<le> unat oc \<and> unat oc \<le> 254" by simp
  qed
  moreover have "set (map of_nat [2..<255]) = (of_nat ` {2..<255} :: u8 set)" by (simp only: set_map set_upt)
  ultimately show ?thesis by (simp only: free_octets_def set_filter mem_Collect_eq) blast
qed

text \<open>What the random choice promises: a member of a non-empty list.\<close>

definition chooses :: "'d platform \<Rightarrow> bool" where
  "chooses P \<longleftrightarrow> (\<forall>xs d. case fst (rng_choose P xs d) of None \<Rightarrow> xs = [] | Some x \<Rightarrow> x \<in> set xs)"

lemma pick_free_octet_cases:
  assumes "chooses P"
  shows "case pick_free_octet P used w of
    (Inr oc, _) \<Rightarrow> oc \<in> set (free_octets used) | (Inl e, _) \<Rightarrow> free_octets used = [] \<and> (\<exists>m. e = ResourceExhausted m)"
proof -
  obtain r d where r: "rng_choose P (free_octets used) (daemon w) = (r, d)" by fastforce
  then have "case r of None \<Rightarrow> free_octets used = [] | Some x \<Rightarrow> x \<in> set (free_octets used)"
    using assms unfolding chooses_def by (metis fst_conv)
  with r show ?thesis by (cases r) (simp_all add: pick_free_octet_def with_daemon_def)
qed

definition label_octets :: "container_msg list \<Rightarrow> u8 list" where
  "label_octets cs = List.map_filter parse_octet (List.map_filter (\<lambda>c. map_of (cm_labels c) BRIDGE_IP_LABEL) cs)"

lemma label_octets_member:
  "oc \<in> set (label_octets cs) \<longleftrightarrow> (\<exists>c\<in>set cs. \<exists>ip. map_of (cm_labels c) BRIDGE_IP_LABEL = Some ip \<and> parse_octet ip = Some oc)"
  by (force simp: label_octets_def List.map_filter_def)

lemma alloc_bridge_ip_listed:
  assumes "containers_list P ns [] (daemon w) = (Inr cs, d)"
  shows "alloc_bridge_ip P ns w = bind (pick_free_octet P (label_octets cs)) (\<lambda>oc. ret (bridge_ip oc)) (w\<lparr>daemon := d\<rparr>)"
  using assms by (simp add: alloc_bridge_ip_def used_octets_def call_def rpc_call_def bind_def [of _ _ w] label_octets_def)

lemma hex_digit_char: "d < 16 \<Longrightarrow> is_alnum (hex_digit d)"
  by (auto simp: hex_digit_def is_alnum_def)

lemma show_hex_alnum: "list_all is_alnum (show_hex n)"
proof (induction n rule: show_hex.induct)
  case (1 n)
  then show ?case by (subst show_hex.simps) (simp add: hex_digit_char)
qed

lemma show_hex_length: "n < 16 ^ k \<Longrightarrow> 0 < k \<Longrightarrow> length (show_hex n) \<le> k"
proof (induction k arbitrary: n)
  case (Suc k)
  show ?case
  proof (cases "n < 16")
    case True
    then show ?thesis by (subst show_hex.simps) simp
  next
    case False
    then have "0 < k" using Suc.prems by (cases k) auto
    moreover have "n div 16 < 16 ^ k" using Suc.prems by (simp add: less_mult_imp_div_less mult.commute)
    ultimately show ?thesis using Suc.IH [of "n div 16"] False by (subst show_hex.simps) simp
  qed
qed simp

section \<open>Properties\<close>

text \<open>
  C18: an allocated bridge address is a well-formed address \<^verbatim>\<open>10.88.1.x\<close> with x from 2 to 254 that no
  listed container carries in its bridge label; the allocation fails, with \<^verbatim>\<open>ResourceExhausted\<close>,
  exactly when all 253 octets are taken.
\<close>

theorem alloc_bridge_ip_fresh:
  assumes "chooses P" "containers_list P ns [] (daemon w) = (Inr cs, d)"
  shows "case fst (alloc_bridge_ip P ns w) of
    Inr ip \<Rightarrow> (\<exists>oc. ip = bridge_ip oc \<and> parse_octet ip = Some oc \<and> 2 \<le> unat oc \<and> unat oc \<le> 254)
        \<and> (\<forall>c\<in>set cs. map_of (cm_labels c) BRIDGE_IP_LABEL \<noteq> Some ip)
  | Inl e \<Rightarrow> (\<exists>m. e = ResourceExhausted m) \<and> (\<forall>oc. 2 \<le> unat oc \<and> unat oc \<le> 254 \<longrightarrow> oc \<in> set (label_octets cs))"
proof -
  obtain r w' where r: "pick_free_octet P (label_octets cs) (w\<lparr>daemon := d\<rparr>) = (r, w')" by fastforce
  note cases = pick_free_octet_cases [OF assms(1), of "label_octets cs" "w\<lparr>daemon := d\<rparr>", unfolded r]
  show ?thesis
  proof (cases r)
    case (Inl e)
    then have "free_octets (label_octets cs) = []" "\<exists>m. e = ResourceExhausted m" using cases by simp_all
    moreover from this(1) have "\<forall>oc. 2 \<le> unat oc \<and> unat oc \<le> 254 \<longrightarrow> oc \<in> set (label_octets cs)"
      using set_free_octets [of _ "label_octets cs"] by auto
    ultimately show ?thesis using r Inl by (simp add: alloc_bridge_ip_listed [OF assms(2)])
  next
    case (Inr oc)
    then have oc: "oc \<notin> set (label_octets cs)" "2 \<le> unat oc" "unat oc \<le> 254" using cases by (simp_all add: set_free_octets)
    then have "\<forall>c\<in>set cs. map_of (cm_labels c) BRIDGE_IP_LABEL \<noteq> Some (bridge_ip oc)"
      by (auto simp: label_octets_member)
    with oc r Inr show ?thesis by (auto simp: alloc_bridge_ip_listed [OF assms(2)])
  qed
qed

theorem alloc_bridge_ip_fresh_witness:
  "case fst (alloc_bridge_ip rd_platform ''n'' (rd_world (rd_init\<lparr>rd_containers := [(''n/c'',
        \<lparr>cm_id = ''c'', cm_image = ''i'', cm_runtime = None, cm_spec = None, cm_snapshotter = ''overlayfs'',
         cm_snapshot_key = ''c-snapshot'', cm_labels = [(BRIDGE_IP_LABEL, bridge_ip 2)]\<rparr>)]\<rparr>))) of
     Inr ip \<Rightarrow> ip \<noteq> bridge_ip 2 | Inl e \<Rightarrow> False"
proof -
  let ?c = "\<lparr>cm_id = ''c'', cm_image = ''i'', cm_runtime = None, cm_spec = None, cm_snapshotter = ''overlayfs'',
         cm_snapshot_key = ''c-snapshot'', cm_labels = [(BRIDGE_IP_LABEL, bridge_ip 2)]\<rparr>"
  let ?w = "rd_world (rd_init\<lparr>rd_containers := [(''n/c'', ?c)]\<rparr>)"
  have l: "containers_list rd_platform ''n'' [] (daemon ?w) = (Inr [?c], daemon ?w)"
    by (simp add: rd_platform_def rd_world_def rd_init_def rd_in_ns_def rd_matches_def)
  have c: "chooses rd_platform" by (simp add: chooses_def rd_platform_def split: list.split)
  have "3 \<notin> set (label_octets [?c])" by (simp add: label_octets_member)
  then have "\<not> (\<forall>oc. 2 \<le> unat oc \<and> unat oc \<le> 254 \<longrightarrow> oc \<in> set (label_octets [?c]))"
    by (intro notI) (drule spec [of _ 3], simp)
  with alloc_bridge_ip_fresh [OF c l] show ?thesis by (auto split: sum.splits)
qed

text \<open>
  C19: the derived interface name is always exactly 15 characters, the limit of Linux, all of them
  alphanumeric, whatever the container identifier.
\<close>

theorem veth_name_fits: "length (veth_name c) = 15 \<and> list_all is_alnum (veth_name c)"
proof -
  let ?n = "unat (fnv1a c AND 0x000fffffffffffff)"
  have "?n < 16 ^ 13"
  proof -
    have "fnv1a c AND 0x000fffffffffffff = take_bit 52 (fnv1a c)"
      by (simp add: take_bit_eq_mask mask_eq_exp_minus_1)
    then have "?n = take_bit 52 (unat (fnv1a c))" by (simp add: unsigned_take_bit_eq)
    then show ?thesis using take_bit_nat_less_exp [of 52 "unat (fnv1a c)"] by simp
  qed
  then have "length (show_hex ?n) \<le> 13" by (intro show_hex_length) simp_all
  moreover have "is_alnum (CHR ''0'')" by (simp add: is_alnum_def)
  ultimately show ?thesis
    using show_hex_alnum [of ?n] by (auto simp: veth_name_def pad_left_def list_all_iff is_alnum_def)
qed

end
