(* ===== verification/Container.thy ===== *)
theory Container
  imports Bridge
begin

text \<open>
  Creating a container record (src/src/container.rs): the options, the builders of labels, mounts,
  arguments, environment, namespaces, capabilities, hooks and runtime specification, the image
  metadata with its cache, and \<open>create_container_with_id\<close> with its rollback.

  The builders of the OCI library that fill in unset fields are the platform's \<open>spec_default\<close> and
  \<open>default_namespaces\<close>; a builder that only fails on a missing required field is not modelled as
  fallible, since the source sets every field.
\<close>

section \<open>Options\<close>

definition snapshot_key_for :: "string \<Rightarrow> string" where
  "snapshot_key_for container_id = container_id @ ''-snapshot''"

record mount =
  mt_source :: string
  mt_destination :: string
  mt_options :: "string list"

datatype network_mode = Isolated | Host | Bridge

fun label_value :: "network_mode \<Rightarrow> string" where
  "label_value Bridge = ''bridge''"
| "label_value Host = ''host''"
| "label_value Isolated = ''isolated''"

record create_opts =
  co_env :: labels
  co_labels :: labels
  co_mounts :: "mount list"
  co_network :: network_mode
  co_cmd :: "string list option"
  co_port_bindings :: "(u16 \<times> u16) list"
  co_from_existing_snapshot :: "string option"

definition default_opts :: create_opts where
  "default_opts = \<lparr>co_env = [], co_labels = [], co_mounts = [], co_network = Bridge, co_cmd = None,
     co_port_bindings = [], co_from_existing_snapshot = None\<rparr>"

definition opt_env :: "string \<Rightarrow> string \<Rightarrow> create_opts \<Rightarrow> create_opts" where
  "opt_env key value opts = opts\<lparr>co_env := hm_insert key value (co_env opts)\<rparr>"

definition opt_label :: "string \<Rightarrow> string \<Rightarrow> create_opts \<Rightarrow> create_opts" where
  "opt_label key value opts = opts\<lparr>co_labels := hm_insert key value (co_labels opts)\<rparr>"

definition opt_mount :: "string \<Rightarrow> string \<Rightarrow> create_opts \<Rightarrow> create_opts" where
  "opt_mount source destination opts = opts\<lparr>co_mounts := co_mounts opts @
     [\<lparr>mt_source = source, mt_destination = destination, mt_options = [''rbind'', ''rw'']\<rparr>]\<rparr>"

definition opt_mount_ro :: "string \<Rightarrow> string \<Rightarrow> create_opts \<Rightarrow> create_opts" where
  "opt_mount_ro source destination opts = opts\<lparr>co_mounts := co_mounts opts @
     [\<lparr>mt_source = source, mt_destination = destination, mt_options = [''rbind'', ''ro'']\<rparr>]\<rparr>"

definition opt_port_binding :: "u16 \<Rightarrow> u16 \<Rightarrow> create_opts \<Rightarrow> create_opts" where
  "opt_port_binding host_port container_port opts =
     opts\<lparr>co_port_bindings := co_port_bindings opts @ [(host_port, container_port)]\<rparr>"

section \<open>Builders\<close>

definition build_labels :: "image_configuration \<Rightarrow> create_opts \<Rightarrow> labels" where
  "build_labels image_config opts =
     (let labels = (case Option.bind (ig_config image_config) ic_labels of None \<Rightarrow> [] | Some img \<Rightarrow> hm_extend [] img)
      in hm_extend labels (co_labels opts))"

definition build_mounts :: "create_opts \<Rightarrow> oci_mount list" where
  "build_mounts opts = map (\<lambda>m. \<lparr>om_source = Some (mt_source m), om_destination = mt_destination m,
     om_typ = Some ''bind'', om_options = Some (mt_options m)\<rparr>) (co_mounts opts)"

definition opt_list :: "'a list option \<Rightarrow> 'a list" where
  "opt_list x = (case x of None \<Rightarrow> [] | Some xs \<Rightarrow> xs)"

definition build_args :: "image_configuration \<Rightarrow> create_opts \<Rightarrow> string list" where
  "build_args image_config opts =
     (case co_cmd opts of
        Some cmd \<Rightarrow> cmd
      | None \<Rightarrow>
        (let args = (case ig_config image_config of None \<Rightarrow> []
                     | Some c \<Rightarrow> opt_list (ic_entrypoint c) @ opt_list (ic_cmd c))
         in if args = [] then [''/bin/sh''] else args))"

definition build_cwd :: "image_configuration \<Rightarrow> string" where
  "build_cwd image_config =
     (case Option.bind (ig_config image_config) ic_working_dir of
        Some s \<Rightarrow> if s \<noteq> [] then s else ''/''
      | None \<Rightarrow> ''/'')"

definition merged_env :: "image_configuration \<Rightarrow> create_opts \<Rightarrow> labels" where
  "merged_env image_config opts =
     (let env_map = (case Option.bind (ig_config image_config) ic_env of None \<Rightarrow> []
                     | Some entries \<Rightarrow> hm_extend [] (List.map_filter (split_once (CHR ''='')) entries))
      in hm_extend env_map (co_env opts))"

definition build_merged_env :: "image_configuration \<Rightarrow> create_opts \<Rightarrow> string list" where
  "build_merged_env image_config opts = map (\<lambda>(k, v). k @ ''='' @ v) (merged_env image_config opts)"

definition build_namespaces :: "'d platform \<Rightarrow> network_mode \<Rightarrow> linux_namespace_type list" where
  "build_namespaces P mode =
     (if mode = Host then filter (\<lambda>ns. ns \<noteq> Ns_Network) (default_namespaces P) else default_namespaces P)"

definition sh_hook :: "string \<Rightarrow> hook" where
  "sh_hook script = \<lparr>hk_path = ''/bin/sh'', hk_args = [''/bin/sh'', ''-c'', script], hk_env = [HOOK_PATH]\<rparr>"

definition build_bridge_hooks :: "string \<Rightarrow> string \<Rightarrow> string \<Rightarrow> (u16 \<times> u16) list \<Rightarrow> (u16 \<times> u16) list \<Rightarrow> hooks" where
  "build_bridge_hooks container_id container_ip namespace ports host_container_pairs =
     \<lparr>hs_prestart = [sh_hook (prestart_hook_script container_ip container_id namespace host_container_pairs)],
      hs_poststart = [sh_hook (poststart_hook_script container_id container_ip ports)],
      hs_poststop = [sh_hook (poststop_hook_script container_id namespace ports)]\<rparr>"

definition default_caps :: "capability list" where
  "default_caps = [Cap_Chown, Cap_DacOverride, Cap_Fsetid, Cap_Fowner, Cap_Mknod, Cap_NetRaw, Cap_Setgid, Cap_Setuid,
     Cap_Setfcap, Cap_Setpcap, Cap_NetBindService, Cap_SysChroot, Cap_Kill, Cap_AuditWrite]"

definition build_default_capabilities :: linux_capabilities where
  "build_default_capabilities = \<lparr>lc_bounding = default_caps, lc_effective = default_caps, lc_inheritable = default_caps,
     lc_permitted = default_caps, lc_ambient = default_caps\<rparr>"

definition default_exec_capabilities :: linux_capabilities where
  "default_exec_capabilities = build_default_capabilities"

definition build_oci_spec :: "'d platform \<Rightarrow> image_configuration \<Rightarrow> create_opts \<Rightarrow> hooks option \<Rightarrow> oci_spec" where
  "build_oci_spec P image_config opts hooks =
     (let mounts = build_mounts opts;
          process = \<lparr>op_terminal = False, op_args = build_args image_config opts,
                     op_env = Some (build_merged_env image_config opts), op_cwd = build_cwd image_config,
                     op_capabilities = Some build_default_capabilities\<rparr>;
          spec = (spec_default P)\<lparr>os_version := OCI_SPEC_VERSION, os_process := Some process,
                     os_root_path := OCI_ROOTFS_PATH, os_root_readonly := False,
                     os_namespaces := build_namespaces P (co_network opts)\<rparr>;
          spec1 = (if mounts \<noteq> [] then spec\<lparr>os_mounts := Some mounts\<rparr> else spec)
      in (case hooks of None \<Rightarrow> spec1 | Some h \<Rightarrow> spec1\<lparr>os_hooks := Some h\<rparr>))"

definition spec_to_any :: "'d platform \<Rightarrow> oci_spec \<Rightarrow> any_msg" where
  "spec_to_any P spec = \<lparr>type_url = OCI_SPEC_TYPE_URL, any_value = spec_to_json P spec\<rparr>"

section \<open>Image metadata\<close>

definition compute_chain_id :: "'d platform \<Rightarrow> string list \<Rightarrow> string" where
  "compute_chain_id P diff_ids =
     (case diff_ids of
        [] \<Rightarrow> []
      | d # ds \<Rightarrow> foldl (\<lambda>chain_id diff_id. ''sha256:'' @ sha256_hex P (chain_id @ '' '' @ diff_id)) d ds)"

text \<open>The chunks of a content stream; the first failing message ends the read.\<close>

fun read_chunks :: "(status + bytes) list \<Rightarrow> bytes \<Rightarrow> bytes result" where
  "read_chunks [] acc = Inr acc"
| "read_chunks (Inl s # _) acc = Inl (into_crate_error s ''read_content_chunk'')"
| "read_chunks (Inr b # cs) acc = read_chunks cs (acc @ b)"

definition read_content :: "'d platform \<Rightarrow> string \<Rightarrow> string \<Rightarrow> ('d, bytes) op" where
  "read_content P ns digest =
     bind (call (content_read P ns digest) (\<lambda>s. into_crate_error s ''read_content'')) (\<lambda>stream. from_result (read_chunks stream []))"

definition json_digest :: "json \<Rightarrow> string option" where
  "json_digest v = Option.bind (json_get ''digest'' v) json_as_str"

text \<open>\<^verbatim>\<open>oci_arch\<close> (src/src/lib.rs).\<close>

definition oci_arch :: "'d platform \<Rightarrow> string" where
  "oci_arch P = (if target_arch P = ''x86_64'' then ''amd64''
     else if target_arch P = ''aarch64'' then ''arm64'' else target_arch P)"

definition pick_manifest :: "string \<Rightarrow> json list \<Rightarrow> string option" where
  "pick_manifest arch ms =
     Option.bind (find (\<lambda>m. Option.bind (Option.bind (json_get ''platform'' m) (json_get ''architecture'')) json_as_str = Some arch) ms)
       json_digest"

text \<open>A parser's own message follows what was parsed.\<close>

definition parse_error :: "string \<Rightarrow> string + 'a \<Rightarrow> 'a result" where
  "parse_error what r = map_sum (\<lambda>e. InvalidArgument (what @ '': '' @ e)) id r"

definition config_digest_of :: "'d platform \<Rightarrow> string \<Rightarrow> json \<Rightarrow> ('d, string) op" where
  "config_digest_of P ns manifest =
     (case json_get ''config'' manifest of
        Some config \<Rightarrow> from_result (ok_or (json_digest config) (InvalidArgument ''manifest missing config digest''))
      | None \<Rightarrow>
        (case json_get ''manifests'' manifest of
           None \<Rightarrow> fail (InvalidArgument ''manifest has neither config nor manifests'')
         | Some manifests \<Rightarrow>
           bind (from_result (ok_or (json_as_array manifests) (InvalidArgument ''invalid manifests array''))) (\<lambda>ms.
           bind (from_result (ok_or (pick_manifest (oci_arch P) ms)
                   (InvalidArgument (''no manifest found for architecture '' @ oci_arch P)))) (\<lambda>sub.
           bind (read_content P ns sub) (\<lambda>sub_data.
           bind (from_result (parse_error ''parse sub-manifest'' (json_parse P sub_data))) (\<lambda>sub_manifest.
             from_result (ok_or (Option.bind (json_get ''config'' sub_manifest) json_digest)
               (InvalidArgument ''sub-manifest missing config digest'')))))))) "

definition fetch_image_metadata :: "'d platform \<Rightarrow> string \<Rightarrow> string \<Rightarrow> ('d, image_metadata) op" where
  "fetch_image_metadata P ns manifest_digest =
     bind (read_content P ns manifest_digest) (\<lambda>manifest_data.
     bind (from_result (parse_error ''parse manifest'' (json_parse P manifest_data))) (\<lambda>manifest.
     bind (config_digest_of P ns manifest) (\<lambda>config_digest.
     bind (read_content P ns config_digest) (\<lambda>config_data.
     bind (from_result (parse_error ''parse image config'' (parse_image_configuration P config_data))) (\<lambda>config.
       if ig_diff_ids config = [] then fail (InvalidArgument ''image config has no diff_ids'')
       else ret \<lparr>md_chain_id = compute_chain_id P (ig_diff_ids config), md_config = config, md_raw_config = config_data\<rparr>)))))"

definition get_image_metadata :: "'d platform \<Rightarrow> string \<Rightarrow> string \<Rightarrow> ('d, image_metadata) op" where
  "get_image_metadata P ns manifest_digest w =
     (case lookup_image_metadata manifest_digest w of
        Some cached \<Rightarrow> (Inr cached, w)
      | None \<Rightarrow> bind (fetch_image_metadata P ns manifest_digest)
                 (\<lambda>md w'. (Inr md, store_image_metadata manifest_digest md w')) w)"

definition get_image :: "'d platform \<Rightarrow> string \<Rightarrow> string \<Rightarrow> error \<Rightarrow> ('d, string) op" where
  "get_image P ns img no_target =
     bind (call (images_get P ns img) (map_image_status ''get_image'' img)) (\<lambda>resp.
     bind (from_result (ok_or resp (ImageNotFound img))) (\<lambda>info.
       from_result (ok_or (im_target info) no_target)))"

definition get_raw_image_config :: "'d platform \<Rightarrow> string \<Rightarrow> string \<Rightarrow> ('d, bytes) op" where
  "get_raw_image_config P ns img =
     bind (get_image P ns img (ImageNotFound (img @ '': no target descriptor''))) (\<lambda>manifest_digest.
     bind (get_image_metadata P ns manifest_digest) (\<lambda>md. ret (md_raw_config md)))"

section \<open>Creation\<close>

fun pick_ports :: "'d platform \<Rightarrow> u16 list \<Rightarrow> ('d, (u16 \<times> u16) list) op" where
  "pick_ports P [] = ret []"
| "pick_ports P (cp # cps) =
     bind (pick_free_port P) (\<lambda>hp. bind (pick_ports P cps) (\<lambda>rest. ret ((cp, hp) # rest)))"

text \<open>The network of a container: in bridge mode an address and a host port for each container port.\<close>

definition bridge_setup :: "'d platform \<Rightarrow> string \<Rightarrow> create_opts \<Rightarrow> ('d, (string \<times> (u16 \<times> u16) list) option) op" where
  "bridge_setup P ns opts =
     (if co_network opts = Bridge then
        bind (alloc_bridge_ip P ns) (\<lambda>container_ip.
        bind (pick_ports P (if co_port_bindings opts = [] then [27017] else map snd (co_port_bindings opts))) (\<lambda>ports.
          ret (Some (container_ip, ports))))
      else ret None)"

definition host_container_pairs :: "create_opts \<Rightarrow> (string \<times> (u16 \<times> u16) list) option \<Rightarrow> (u16 \<times> u16) list" where
  "host_container_pairs opts bridge_config =
     (case bridge_config of
        Some (_, ports) \<Rightarrow> map (\<lambda>(cp, hp). (hp, cp)) ports
      | None \<Rightarrow> co_port_bindings opts)"

definition container_labels ::
  "string \<Rightarrow> string \<Rightarrow> image_configuration \<Rightarrow> create_opts \<Rightarrow> (string \<times> (u16 \<times> u16) list) option \<Rightarrow> labels" where
  "container_labels ns name config opts bridge_config =
     (let l0 = build_labels config opts;
          l1 = hm_insert NETWORK_MODE_LABEL (label_value (co_network opts)) l0;
          l2 = (case bridge_config of Some (ip, _) \<Rightarrow> hm_insert BRIDGE_IP_LABEL ip l1 | None \<Rightarrow> l1);
          l3 = hm_extend l2 (map port_label (host_container_pairs opts bridge_config));
          l4 = hm_insert NAME_LABEL name l3
      in hm_insert ''nerdctl/namespace'' ns (hm_insert ''nerdctl/name'' name l4))"

definition container_record ::
  "'d platform \<Rightarrow> string \<Rightarrow> string \<Rightarrow> string \<Rightarrow> string \<Rightarrow> string \<Rightarrow> image_configuration \<Rightarrow> create_opts
     \<Rightarrow> (string \<times> (u16 \<times> u16) list) option \<Rightarrow> container_msg" where
  "container_record P ns container_id name img snapshot_key config opts bridge_config =
     (let pairs = host_container_pairs opts bridge_config;
          hooks = map_option (\<lambda>(ip, ports). build_bridge_hooks container_id ip ns ports pairs) bridge_config
      in \<lparr>cm_id = container_id, cm_image = img, cm_runtime = Some DEFAULT_RUNTIME,
          cm_spec = Some (spec_to_any P (build_oci_spec P config opts hooks)),
          cm_snapshotter = DEFAULT_SNAPSHOTTER, cm_snapshot_key = snapshot_key,
          cm_labels = container_labels ns name config opts bridge_config\<rparr>)"

definition already_exists_or :: "error \<Rightarrow> string \<Rightarrow> status \<Rightarrow> error" where
  "already_exists_or e op s = (if status_code s = Code_AlreadyExists then e else into_crate_error s op)"

definition prepare_rootfs :: "'d platform \<Rightarrow> string \<Rightarrow> string \<Rightarrow> string \<Rightarrow> string \<Rightarrow> create_opts \<Rightarrow> ('d, string \<times> bool) op" where
  "prepare_rootfs P ns container_id name chain_id opts =
     (case co_from_existing_snapshot opts of
        Some key \<Rightarrow> ret (key, False)
      | None \<Rightarrow>
        (let key = snapshot_key_for container_id
         in bind (call (snapshots_prepare P ns DEFAULT_SNAPSHOTTER key chain_id [])
                   (already_exists_or (ContainerAlreadyExists name) ''prepare_snapshot''))
              (\<lambda>_. ret (key, True))))"

definition commit_record :: "'d platform \<Rightarrow> string \<Rightarrow> string \<Rightarrow> container_id \<Rightarrow> container_msg \<Rightarrow> bool \<Rightarrow> ('d, container_id) op" where
  "commit_record P ns name cid container we_prepared =
     call_raw (containers_create P ns container) (\<lambda>r. case r of
        Inr _ \<Rightarrow> ret cid
      | Inl s \<Rightarrow>
        (let err = already_exists_or (ContainerAlreadyExists name) ''create_container'' s
         in if we_prepared
            then call_raw (snapshots_remove P ns DEFAULT_SNAPSHOTTER (cm_snapshot_key container)) (\<lambda>_. fail err)
            else fail err))"

definition create_container_with_id ::
  "'d platform \<Rightarrow> string \<Rightarrow> container_id \<Rightarrow> string \<Rightarrow> string \<Rightarrow> create_opts \<Rightarrow> ('d, container_id) op" where
  "create_container_with_id P ns cid name img opts =
     bind (from_result (validate_identifier name)) (\<lambda>_.
     bind (call (containers_list P ns [name_filter name]) (\<lambda>s. into_crate_error s ''list_containers_for_name_check'')) (\<lambda>existing.
     if existing \<noteq> [] then fail (ContainerAlreadyExists name) else
     bind (get_image P ns img (InvalidArgument ''image has no target'')) (\<lambda>manifest_digest.
     bind (get_image_metadata P ns manifest_digest) (\<lambda>md.
     bind (prepare_rootfs P ns (as_str cid) name (md_chain_id md) opts) (\<lambda>(snapshot_key, we_prepared).
     bind (bridge_setup P ns opts) (\<lambda>bridge_config.
       commit_record P ns name cid
         (container_record P ns (as_str cid) name img snapshot_key (md_config md) opts bridge_config) we_prepared))))))"

text \<open>\<^verbatim>\<open>ContainerId::generate\<close> (src/src/types.rs) takes a fresh identifier without validating it.\<close>

definition create_container :: "'d platform \<Rightarrow> string \<Rightarrow> string \<Rightarrow> string \<Rightarrow> create_opts \<Rightarrow> ('d, container_id) op" where
  "create_container P ns name img opts =
     bind (from_result (validate_identifier name)) (\<lambda>_.
       with_daemon (uuid_v4 P) (\<lambda>u. create_container_with_id P ns (ContainerId u) name img opts))"

section \<open>Lemmas\<close>

lemma managed_labels_distinct [simp]:
  "NAME_LABEL \<noteq> ''nerdctl/name''" "NAME_LABEL \<noteq> ''nerdctl/namespace''" "''nerdctl/name'' \<noteq> NAME_LABEL"
  "''nerdctl/namespace'' \<noteq> NAME_LABEL" "NETWORK_MODE_LABEL \<noteq> NAME_LABEL" "BRIDGE_IP_LABEL \<noteq> NAME_LABEL"
  "NETWORK_MODE_LABEL \<noteq> BRIDGE_IP_LABEL" "NETWORK_MODE_LABEL \<noteq> ''nerdctl/name''" "NETWORK_MODE_LABEL \<noteq> ''nerdctl/namespace''"
  "BRIDGE_IP_LABEL \<noteq> ''nerdctl/name''" "BRIDGE_IP_LABEL \<noteq> ''nerdctl/namespace''" "BRIDGE_IP_LABEL \<noteq> NETWORK_MODE_LABEL"
  by (simp_all add: label_consts)

lemma not_port_label [simp]:
  "\<not> is_port_label NAME_LABEL" "\<not> is_port_label NETWORK_MODE_LABEL" "\<not> is_port_label BRIDGE_IP_LABEL"
  "\<not> is_port_label ''nerdctl/name''" "\<not> is_port_label ''nerdctl/namespace''"
  by (simp_all add: is_port_label_def label_consts)

lemma port_label_is: "is_port_label (fst (port_label b))"
  by (simp add: port_label_def is_port_label_def)

lemma hm_extend_ports [simp]:
  "\<not> is_port_label k \<Longrightarrow> map_of (hm_extend m (map port_label bs)) k = map_of m k"
  by (rule hm_extend_notin) (use port_label_is in \<open>auto simp: image_image\<close>)

lemma distinct_build_labels [simp]: "distinct (map fst (build_labels config opts))"
  by (simp add: build_labels_def Let_def split: option.split)

lemma distinct_merged_env [simp]: "distinct (map fst (merged_env config opts))"
  by (simp add: merged_env_def Let_def split: option.split)

text \<open>The labels of a new container.\<close>

lemma container_labels_lookup:
  "map_of (container_labels ns name config opts bc) NAME_LABEL = Some name"
  "map_of (container_labels ns name config opts bc) NETWORK_MODE_LABEL = Some (label_value (co_network opts))"
  "map_of (container_labels ns name config opts (Some (ip, ps))) BRIDGE_IP_LABEL = Some ip"
  by (simp_all add: container_labels_def Let_def del: map_of_eq_Some_iff split: option.split)

lemma container_labels_ports:
  assumes "\<forall>(k, v)\<in>set (build_labels config opts). \<not> is_port_label k" "distinct (map snd (host_container_pairs opts bc))"
  shows "set (parse_port_binding_labels (container_labels ns name config opts bc)) = set (host_container_pairs opts bc)"
proof -
  let ?l2 = "case bc of Some (ip, _) \<Rightarrow> hm_insert BRIDGE_IP_LABEL ip (hm_insert NETWORK_MODE_LABEL (label_value (co_network opts)) (build_labels config opts))
      | None \<Rightarrow> hm_insert NETWORK_MODE_LABEL (label_value (co_network opts)) (build_labels config opts)"
  have d: "distinct (map fst ?l2)" by (simp split: option.split)
  have "\<not> is_port_label k" if "(k, v) \<in> set ?l2" for k v
  proof -
    from that d have "map_of ?l2 k = Some v" by simp
    then have "map_of (build_labels config opts) k = Some v \<or> k \<in> {BRIDGE_IP_LABEL, NETWORK_MODE_LABEL}"
      by (auto simp del: map_of_eq_Some_iff split: option.splits if_splits)
    with assms(1) show ?thesis by (auto dest: map_of_SomeD)
  qed
  then have "set (parse_port_binding_labels (hm_extend ?l2 (map port_label (host_container_pairs opts bc)))) = set (host_container_pairs opts bc)"
    using d assms(2) by (intro parse_bindings_extend) auto
  with d show ?thesis by (simp add: container_labels_def Let_def)
qed

text \<open>The environment survives being written as \<^verbatim>\<open>KEY=value\<close> strings.\<close>

lemma merged_env_keys:
  assumes "\<forall>(k, v)\<in>set (co_env opts). CHR ''='' \<notin> set k"
  shows "\<forall>(k, v)\<in>set (merged_env config opts). CHR ''='' \<notin> set k"
proof -
  let ?Q = "\<lambda>m :: labels. \<forall>(k, v)\<in>set m. CHR ''='' \<notin> set k"
  have ext: "?Q (hm_extend m kvs)" if "?Q m" "?Q kvs" "distinct (map fst m)" for m kvs
  proof (clarify)
    fix k v assume "(k, v) \<in> set (hm_extend m kvs)"
    then have "map_of (hm_extend m kvs) k = Some v" using that(3) by simp
    then have "map_of m k = Some v \<or> k \<in> fst ` set kvs"
      using hm_extend_notin [of k kvs m] by (auto simp del: map_of_eq_Some_iff)
    moreover assume "CHR ''='' \<in> set k"
    ultimately show False using that(1,2) by (auto dest: map_of_SomeD)
  qed
  have "?Q (List.map_filter (split_once (CHR ''='')) es)" for es
    by (auto simp: List.map_filter_def) (metis option.exhaust_sel split_once_None split_once_Some)
  then have "?Q (hm_extend [] (List.map_filter (split_once (CHR ''='')) es))" for es by (intro ext) simp_all
  then show ?thesis
    unfolding merged_env_def Let_def by (intro ext assms) (auto split: option.split)
qed

lemma parse_env_roundtrip:
  assumes "distinct (map fst m)" "\<forall>(k, v)\<in>set m. CHR ''='' \<notin> set k"
  shows "map_of (parse_env_vars (map (\<lambda>(k, v). k @ ''='' @ v) m)) = map_of m"
proof -
  have "List.map_filter (split_once (CHR ''='')) (map (\<lambda>(k, v). k @ ''='' @ v) m) = m"
    using assms(2) by (induction m) (auto simp: map_filter_simps)
  with assms(1) show ?thesis by (simp add: parse_env_vars_def map_of_hm_extend_distinct)
qed

section \<open>The snapshot of a container under creation\<close>

text \<open>
  What the code relies on of the snapshotter, in terms of the state of a key: no snapshot has it,
  one has it and none depends on it, or it is in use. Preparing an absent key either makes a
  snapshot nothing depends on or fails and changes nothing; removing such a snapshot frees its key;
  committing it moves it to the new name or fails and changes nothing; keys that a call does not
  name stay absent; and the other calls of the crate do not touch snapshots.
\<close>

datatype key_state = Absent | Leaf | In_Use

definition snapshot_contract :: "'d platform \<Rightarrow> string \<Rightarrow> (string \<Rightarrow> 'd \<Rightarrow> key_state) \<Rightarrow> bool" where
  "snapshot_contract P ns key_of \<longleftrightarrow>
     (\<forall>k par ls d. key_of k d = Absent \<longrightarrow> (case snapshots_prepare P ns DEFAULT_SNAPSHOTTER k par ls d of
        (Inr _, d') \<Rightarrow> key_of k d' = Leaf | (Inl _, d') \<Rightarrow> \<forall>j. key_of j d' = key_of j d))
     \<and> (\<forall>k d. key_of k d = Leaf \<longrightarrow> key_of k (snd (snapshots_remove P ns DEFAULT_SNAPSHOTTER k d)) = Absent)
     \<and> (\<forall>n k ls d. key_of k d = Leaf \<longrightarrow> key_of n d = Absent \<longrightarrow>
          (case snapshots_commit P ns DEFAULT_SNAPSHOTTER n k ls d of
             (Inr _, d') \<Rightarrow> key_of n d' = Leaf \<and> key_of k d' = Absent
           | (Inl _, d') \<Rightarrow> key_of n d' = Absent \<and> key_of k d' = Leaf))
     \<and> (\<forall>j k par ls. j \<noteq> k \<longrightarrow> j \<noteq> par \<longrightarrow> rpc_keeps (\<lambda>d. key_of j d = Absent) (snapshots_prepare P ns DEFAULT_SNAPSHOTTER k par ls))
     \<and> (\<forall>j k. rpc_keeps (\<lambda>d. key_of j d = Absent) (snapshots_remove P ns DEFAULT_SNAPSHOTTER k))
     \<and> (\<forall>j n k ls. j \<noteq> n \<longrightarrow> rpc_keeps (\<lambda>d. key_of j d = Absent) (snapshots_commit P ns DEFAULT_SNAPSHOTTER n k ls))
     \<and> (\<forall>k b. (\<forall>fl. rpc_keeps (\<lambda>d. key_of k d = b) (containers_list P ns fl))
        \<and> (\<forall>c. rpc_keeps (\<lambda>d. key_of k d = b) (containers_create P ns c))
        \<and> (\<forall>i. rpc_keeps (\<lambda>d. key_of k d = b) (images_get P ns i))
        \<and> (\<forall>g. rpc_keeps (\<lambda>d. key_of k d = b) (content_read P ns g))
        \<and> (\<forall>xs. rpc_keeps (\<lambda>d. key_of k d = b) (rng_choose P xs))
        \<and> rpc_keeps (\<lambda>d. key_of k d = b) (ephemeral_port P)
        \<and> (\<forall>c. rpc_keeps (\<lambda>d. key_of k d = b) (containers_get P ns c))
        \<and> (\<forall>s n. rpc_keeps (\<lambda>d. key_of k d = b) (snapshots_stat P ns s n))
        \<and> rpc_keeps (\<lambda>d. key_of k d = b) (uuid_v4 P))"

lemma keeps_get_image [keeps_intros]: "rpc_keeps I (images_get P ns img) \<Longrightarrow> keeps I (get_image P ns img e)"
  unfolding get_image_def by (intro keeps_intros)

lemma keeps_read_content [keeps_intros]: "rpc_keeps I (content_read P ns g) \<Longrightarrow> keeps I (read_content P ns g)"
  unfolding read_content_def by (intro keeps_intros)

lemma keeps_config_digest [keeps_intros]:
  "(\<And>g. rpc_keeps I (content_read P ns g)) \<Longrightarrow> keeps I (config_digest_of P ns m)"
  unfolding config_digest_of_def by (auto intro!: keeps_intros split: option.split)

lemma keeps_fetch [keeps_intros]:
  "(\<And>g. rpc_keeps I (content_read P ns g)) \<Longrightarrow> keeps I (fetch_image_metadata P ns g)"
  unfolding fetch_image_metadata_def by (intro keeps_intros)

lemma remote_fetch: "remote_only (fetch_image_metadata P ns g)"
  unfolding fetch_image_metadata_def config_digest_of_def read_content_def
  by (auto intro!: remote_intros split: option.split)

lemma keeps_store: "keeps I (\<lambda>w. (Inr x, store_image_metadata g md w))"
  by (simp add: keeps_def store_image_metadata_def)

lemma keeps_get_metadata [keeps_intros]:
  assumes "\<And>g. rpc_keeps I (content_read P ns g)"
  shows "keeps I (get_image_metadata P ns g)"
proof (rule keepsI)
  fix w r w' assume i: "I (daemon w)" and r: "get_image_metadata P ns g w = (r, w')"
  have "keeps I (bind (fetch_image_metadata P ns g) (\<lambda>md w'. (Inr md, store_image_metadata g md w')))"
    by (intro keeps_intros keeps_store assms)
  from keepsD [OF this] r i show "I (daemon w')" by (auto simp: get_image_metadata_def split: option.splits)
qed

lemma keeps_bridge_setup [keeps_intros]:
  assumes "\<And>fl. rpc_keeps I (containers_list P ns fl)" "\<And>xs. rpc_keeps I (rng_choose P xs)" "rpc_keeps I (ephemeral_port P)"
  shows "keeps I (bridge_setup P ns opts)"
proof -
  have port: "keeps I (pick_free_port P)"
    unfolding pick_free_port_def by (rule keeps_intros assms)+ (auto intro!: keeps_intros split: sum.split ephemeral_error.split)
  have ports: "keeps I (pick_ports P cps)" for cps
    by (induction cps) (simp_all only: pick_ports.simps, (rule keeps_intros port | assumption)+)
  have pick: "keeps I (pick_free_octet P used)" for used
    unfolding pick_free_octet_def by (rule keeps_intros assms)+ (auto intro!: keeps_intros split: option.split)
  have "keeps I (alloc_bridge_ip P ns)"
    unfolding alloc_bridge_ip_def used_octets_def by (intro keeps_intros pick assms)
  then show ?thesis unfolding bridge_setup_def by (intro keeps_intros ports)
qed

lemma contract_keeps:
  assumes "snapshot_contract P ns key_of"
  shows "rpc_keeps (\<lambda>d. key_of k d = b) (containers_list P ns fl)" "rpc_keeps (\<lambda>d. key_of k d = b) (containers_create P ns c)"
    "rpc_keeps (\<lambda>d. key_of k d = b) (images_get P ns i)" "rpc_keeps (\<lambda>d. key_of k d = b) (content_read P ns g)"
    "rpc_keeps (\<lambda>d. key_of k d = b) (rng_choose P xs)" "rpc_keeps (\<lambda>d. key_of k d = b) (ephemeral_port P)"
    "rpc_keeps (\<lambda>d. key_of k d = b) (containers_get P ns cid)" "rpc_keeps (\<lambda>d. key_of k d = b) (snapshots_stat P ns s n)"
    "rpc_keeps (\<lambda>d. key_of k d = b) (uuid_v4 P)"
  using assms unfolding snapshot_contract_def by simp_all

lemma contract_prepare:
  assumes "snapshot_contract P ns key_of" "snapshots_prepare P ns DEFAULT_SNAPSHOTTER k par ls d = (r, d')" "key_of k d = Absent"
  shows "key_of k d' = (if isl r then Absent else Leaf)" "isl r \<Longrightarrow> key_of j d' = key_of j d"
proof -
  have "case snapshots_prepare P ns DEFAULT_SNAPSHOTTER k par ls d of
      (Inr _, d') \<Rightarrow> key_of k d' = Leaf | (Inl _, d') \<Rightarrow> \<forall>j. key_of j d' = key_of j d"
    using assms(1,3) unfolding snapshot_contract_def by simp
  with assms(2,3) show "key_of k d' = (if isl r then Absent else Leaf)" "isl r \<Longrightarrow> key_of j d' = key_of j d"
    by (cases r; simp)+
qed

lemma contract_commit:
  assumes "snapshot_contract P ns key_of" "snapshots_commit P ns DEFAULT_SNAPSHOTTER n k ls d = (r, d')"
    and "key_of k d = Leaf" "key_of n d = Absent"
  shows "key_of n d' = (if isl r then Absent else Leaf)" "key_of k d' = (if isl r then Leaf else Absent)"
proof -
  have "case snapshots_commit P ns DEFAULT_SNAPSHOTTER n k ls d of
      (Inr _, d') \<Rightarrow> key_of n d' = Leaf \<and> key_of k d' = Absent | (Inl _, d') \<Rightarrow> key_of n d' = Absent \<and> key_of k d' = Leaf"
    using assms(1,3,4) unfolding snapshot_contract_def by simp
  with assms(2) show "key_of n d' = (if isl r then Absent else Leaf)" "key_of k d' = (if isl r then Leaf else Absent)"
    by (cases r; simp)+
qed

lemma contract_remove:
  assumes "snapshot_contract P ns key_of" "snapshots_remove P ns DEFAULT_SNAPSHOTTER k d = (r, d')" "key_of k d = Leaf"
  shows "key_of k d' = Absent"
proof -
  have "key_of k (snd (snapshots_remove P ns DEFAULT_SNAPSHOTTER k d)) = Absent"
    using assms(1,3) unfolding snapshot_contract_def by simp
  with assms(2) show ?thesis by simp
qed

lemma contract_absent:
  assumes "snapshot_contract P ns key_of"
  shows "j \<noteq> k \<Longrightarrow> j \<noteq> par \<Longrightarrow> rpc_keeps (\<lambda>d. key_of j d = Absent) (snapshots_prepare P ns DEFAULT_SNAPSHOTTER k par ls)"
    and "rpc_keeps (\<lambda>d. key_of j d = Absent) (snapshots_remove P ns DEFAULT_SNAPSHOTTER k)"
    and "j \<noteq> n \<Longrightarrow> rpc_keeps (\<lambda>d. key_of j d = Absent) (snapshots_commit P ns DEFAULT_SNAPSHOTTER n k ls)"
  using assms unfolding snapshot_contract_def by simp_all

text \<open>The reference daemon's snapshotter keeps the contract.\<close>

definition rd_key_of :: "string \<Rightarrow> string \<Rightarrow> rd \<Rightarrow> key_state" where
  "rd_key_of ns k d =
     (if list_ex (\<lambda>(_, m). sm_parent m = k) (rd_snapshots d) then In_Use
      else if map_of (rd_snapshots d) (rd_key ns k) = None then Absent else Leaf)"

lemma map_of_filter_key: "map_of (filter (\<lambda>(k', _). k' \<noteq> k) m) k = None"
  by (induction m) auto

lemma list_ex_filter: "\<not> list_ex p m \<Longrightarrow> \<not> list_ex p (filter q m)"
  by (induction m) auto

lemma map_of_filter_None: "map_of m j = None \<Longrightarrow> map_of (filter q m) j = None"
  by (induction m) (auto split: if_splits)

lemma rd_key_inject [simp]: "rd_key ns j = rd_key ns k \<longleftrightarrow> j = k"
  by (simp add: rd_key_def)

lemma rd_commit:
  assumes "rd_key_of ns k d = Leaf" "rd_key_of ns n d = Absent"
    and "snapshots_commit rd_platform ns s n k ls d = (r, d')"
  shows "case r of Inr _ \<Rightarrow> rd_key_of ns n d' = Leaf \<and> rd_key_of ns k d' = Absent
    | Inl _ \<Rightarrow> rd_key_of ns n d' = Absent \<and> rd_key_of ns k d' = Leaf"
proof -
  from assms(1) obtain m where m: "map_of (rd_snapshots d) (rd_key ns k) = Some m"
    and k: "\<not> list_ex (\<lambda>(_, m). sm_parent m = k) (rd_snapshots d)" by (auto simp: rd_key_of_def split: if_splits)
  from assms(2) have n: "map_of (rd_snapshots d) (rd_key ns n) = None" "\<not> list_ex (\<lambda>(_, m). sm_parent m = n) (rd_snapshots d)"
    by (auto simp: rd_key_of_def split: if_splits)
  have "n \<noteq> k" using m n(1) by auto
  moreover have "sm_parent m \<noteq> k" "sm_parent m \<noteq> n"
    using map_of_SomeD [OF m] k n(2) by (auto simp: list_ex_iff)
  ultimately show ?thesis
    using assms(3) m k n by (auto simp: rd_calls rd_key_of_def list_ex_filter map_of_filter_key)
qed

lemma rd_commit_absent:
  assumes "rd_key_of ns j d = Absent" "j \<noteq> n"
  shows "rd_key_of ns j (snd (snapshots_commit rd_platform ns s n k ls d)) = Absent"
proof -
  from assms(1) have j: "map_of (rd_snapshots d) (rd_key ns j) = None" "\<not> list_ex (\<lambda>(_, m). sm_parent m = j) (rd_snapshots d)"
    by (auto simp: rd_key_of_def split: if_splits)
  then have "sm_parent m \<noteq> j" if "map_of (rd_snapshots d) (rd_key ns k) = Some m" for m
    using map_of_SomeD [OF that] by (auto simp: list_ex_iff)
  with j assms(2) show ?thesis
    by (auto simp: rd_calls rd_key_of_def rd_err_def list_ex_filter map_of_filter_None split: option.split)
qed

lemma rd_snapshot_contract: "snapshot_contract rd_platform ns (rd_key_of ns)"
  unfolding snapshot_contract_def
proof (intro conjI allI impI)
  show "case snapshots_commit rd_platform ns DEFAULT_SNAPSHOTTER n k ls d of
      (Inl _, d') \<Rightarrow> rd_key_of ns n d' = Absent \<and> rd_key_of ns k d' = Leaf
    | (Inr _, d') \<Rightarrow> rd_key_of ns n d' = Leaf \<and> rd_key_of ns k d' = Absent"
    if "rd_key_of ns k d = Leaf" "rd_key_of ns n d = Absent" for n k ls d
    using rd_commit [OF that] by (auto split: prod.split sum.split)
  show "rpc_keeps (\<lambda>d. rd_key_of ns j d = Absent) (snapshots_commit rd_platform ns DEFAULT_SNAPSHOTTER n k ls)"
    if "j \<noteq> n" for j n k ls
    using that rd_commit_absent by (simp add: rpc_keeps_def)
qed (auto simp: rd_calls rd_key_of_def rd_err_def rpc_keeps_def map_of_filter_key map_of_filter_None list_ex_filter
      split: option.split if_splits)

text \<open>The part of a creation before its snapshot, and the rest.\<close>

definition create_lookup :: "'d platform \<Rightarrow> string \<Rightarrow> string \<Rightarrow> string \<Rightarrow> ('d, image_metadata) op" where
  "create_lookup P ns name img =
     bind (call (containers_list P ns [name_filter name]) (\<lambda>s. into_crate_error s ''list_containers_for_name_check'')) (\<lambda>existing.
     if existing \<noteq> [] then fail (ContainerAlreadyExists name) else
     bind (get_image P ns img (InvalidArgument ''image has no target'')) (get_image_metadata P ns))"

lemma create_stages:
  assumes "validate_identifier name = Inr ()"
  shows "create_container_with_id P ns cid name img opts w =
    bind (create_lookup P ns name img)
      (\<lambda>md. bind (prepare_rootfs P ns (as_str cid) name (md_chain_id md) opts) (\<lambda>(snapshot_key, we_prepared).
        bind (bridge_setup P ns opts) (\<lambda>bridge_config. commit_record P ns name cid
          (container_record P ns (as_str cid) name img snapshot_key (md_config md) opts bridge_config) we_prepared))) w"
  unfolding create_container_with_id_def create_lookup_def assms
  by (simp add: bind_def from_result_def fail_def split: prod.split sum.split)

lemma keeps_create_lookup:
  assumes "snapshot_contract P ns key_of"
  shows "keeps (\<lambda>d. key_of k d = b) (create_lookup P ns name img)"
  unfolding create_lookup_def by (intro keeps_intros contract_keeps [OF assms])

lemma prepare_rootfs_fresh:
  assumes "snapshot_contract P ns key_of" "co_from_existing_snapshot opts = None" "key_of (snapshot_key_for c) (daemon w) = Absent"
    and "prepare_rootfs P ns c name chain opts w = (r, w')"
  shows "case r of Inl _ \<Rightarrow> key_of (snapshot_key_for c) (daemon w') = Absent
    | Inr (key, prepared) \<Rightarrow> key = snapshot_key_for c \<and> prepared \<and> key_of (snapshot_key_for c) (daemon w') = Leaf"
proof -
  obtain q d where q: "snapshots_prepare P ns DEFAULT_SNAPSHOTTER (snapshot_key_for c) chain [] (daemon w) = (q, d)" by fastforce
  from contract_prepare(1) [OF assms(1) q assms(3)] assms(2,4) q show ?thesis
    by (cases q) (auto simp: prepare_rootfs_def Let_def call_def rpc_call_def bind_def)
qed

lemma commit_record_failed:
  assumes "snapshot_contract P ns key_of" "cm_snapshot_key c = k" "key_of k (daemon w) = Leaf"
    and "commit_record P ns name cid c True w = (Inl e, w')"
  shows "key_of k (daemon w') = Absent"
proof -
  obtain q d where q: "containers_create P ns c (daemon w) = (q, d)" by fastforce
  obtain q' d' where q': "snapshots_remove P ns DEFAULT_SNAPSHOTTER k d = (q', d')" by fastforce
  have "key_of k d = Leaf" using rpc_keepsD [OF contract_keeps(2) [OF assms(1)] q] assms(3) by simp
  from contract_remove [OF assms(1) q' this] assms(2,4) q q' show ?thesis
    by (cases q) (auto simp: commit_record_def call_raw_def rpc_call_def Let_def)
qed

text \<open>A creation that fails after its lookups has either not made a snapshot, or made it and taken it back, or failed to set up its bridge.\<close>

lemma create_failure_cases:
  assumes "snapshot_contract P ns key_of" "co_from_existing_snapshot opts = None"
    and "key_of (snapshot_key_for (as_str cid)) (daemon w) = Absent"
    and "create_container_with_id P ns cid name img opts w = (Inl e, w')"
  shows "key_of (snapshot_key_for (as_str cid)) (daemon w') = Absent
    \<or> (\<exists>v. bridge_setup P ns opts v = (Inl e, w') \<and> key_of (snapshot_key_for (as_str cid)) (daemon w') = Leaf)"
proof (cases "validate_identifier name")
  case (Inl x)
  with assms(3,4) show ?thesis by (simp add: create_container_with_id_def)
next
  case v: (Inr u)
  let ?k = "snapshot_key_for (as_str cid)"
  obtain q w1 where q: "create_lookup P ns name img w = (q, w1)" by fastforce
  then have h1: "key_of ?k (daemon w1) = Absent" using keepsD [OF keeps_create_lookup [OF assms(1)] q] assms(3) by simp
  show ?thesis
  proof (cases q)
    case (Inl x)
    with assms(4) q h1 v show ?thesis by (simp add: create_stages)
  next
    case md: (Inr md)
    obtain r w2 where r: "prepare_rootfs P ns (as_str cid) name (md_chain_id md) opts w1 = (r, w2)" by fastforce
    note prep = prepare_rootfs_fresh [OF assms(1,2) h1 r]
    show ?thesis
    proof (cases r)
      case (Inl x)
      with assms(4) q md r prep v show ?thesis by (simp add: create_stages)
    next
      case r': (Inr kp)
      then have kp: "kp = (?k, True)" and h2: "key_of ?k (daemon w2) = Leaf" using prep by (cases kp; simp)+
      obtain b w3 where b: "bridge_setup P ns opts w2 = (b, w3)" by fastforce
      have "keeps (\<lambda>d. key_of ?k d = Leaf) (bridge_setup P ns opts)"
        by (intro keeps_bridge_setup contract_keeps [OF assms(1)])
      from keepsD [OF this b] h2 have h3: "key_of ?k (daemon w3) = Leaf" by simp
      show ?thesis
      proof (cases b)
        case (Inl x)
        with assms(4) q md r r' kp b h3 v show ?thesis by (auto simp: create_stages)
      next
        case (Inr bc)
        with assms(4) q md r r' kp b v have "commit_record P ns name cid
            (container_record P ns (as_str cid) name img ?k (md_config md) opts bc) True w3 = (Inl e, w')"
          by (simp add: create_stages)
        with commit_record_failed [OF assms(1) _ h3 this] show ?thesis by (simp add: container_record_def Let_def)
      qed
    qed
  qed
qed

section \<open>Properties\<close>

text \<open>A request and two platforms for the witnesses: one on which the specification reads back, one whose calls can be made to fail.\<close>

definition web_opts :: create_opts where
  "web_opts = opt_mount ''/srv'' ''/www'' (opt_env ''A'' ''1=2'' (opt_port_binding 8080 80 (default_opts\<lparr>co_network := Host\<rparr>)))"

definition web_config :: image_configuration where
  "web_config = \<lparr>ig_config = Some \<lparr>ic_labels = Some [(''maintainer'', ''x'')], ic_entrypoint = None, ic_cmd = Some [''nginx''],
     ic_working_dir = None, ic_env = Some [''PATH=/bin'', ''A=0'']\<rparr>, ig_diff_ids = [''sha256:a'']\<rparr>"

definition web_platform :: "rd platform" where
  "web_platform = rd_platform\<lparr>spec_of_json := (\<lambda>_. Some (build_oci_spec rd_platform web_config web_opts None))\<rparr>"

definition web_daemon :: rd where
  "web_daemon = rd_init\<lparr>rd_images := [(''nginx'', \<lparr>im_name = ''nginx'', im_target = Some ''sha256:0''\<rparr>)],
     rd_blobs := [(''sha256:0'', ''m''), (''cfg'', ''c'')]\<rparr>"

definition full_platform :: "rd platform" where
  "full_platform = rd_platform\<lparr>containers_create := (\<lambda>_ _ d. rd_err Code_Unavailable d), ephemeral_port := (\<lambda>d. (Inl (Ephemeral_Bind ''no port''), d))\<rparr>"

lemma full_snapshot_contract: "snapshot_contract full_platform ns (rd_key_of ns)"
  using rd_snapshot_contract [of ns] unfolding snapshot_contract_def full_platform_def
  by (simp add: rpc_keeps_def rd_err_def split: prod.splits)

lemma full_port_fails: "isl (fst (pick_free_port full_platform w))"
  by (simp add: pick_free_port_def full_platform_def with_daemon_def)

lemma full_commit_fails: "isl (fst (commit_record full_platform ns name cid c b w))"
  by (simp add: commit_record_def full_platform_def rd_err_def call_raw_def rpc_call_def Let_def split: prod.split)

lemma full_create_fails: "isl (fst (create_container_with_id full_platform ns cid name img opts w))"
  unfolding create_container_with_id_def
  by (intro bind_always_fails) (auto intro!: bind_always_fails full_commit_fails split: prod.split)





text \<open>
  C23: in bridge mode a creation whose address or port allocation fails returns that error and
  leaves the snapshot it prepared behind: the early return skips the removal that a failed record
  creation performs.
\<close>

theorem failed_bridge_setup_leaks_snapshot:
  assumes "snapshot_contract P ns key_of" "validate_identifier name = Inr ()" "co_from_existing_snapshot opts = None"
    and "create_lookup P ns name img w = (Inr md, w1)" "key_of (snapshot_key_for (as_str cid)) (daemon w1) = Absent"
    and "prepare_rootfs P ns (as_str cid) name (md_chain_id md) opts w1 = (Inr (key, prepared), w2)"
    and "bridge_setup P ns opts w2 = (Inl e, w')"
  shows "create_container_with_id P ns cid name img opts w = (Inl e, w')
    \<and> key_of (snapshot_key_for (as_str cid)) (daemon w') = Leaf"
proof -
  have "key_of (snapshot_key_for (as_str cid)) (daemon w2) = Leaf"
    using prepare_rootfs_fresh [OF assms(1,3,5,6)] by simp
  moreover have "keeps (\<lambda>d. key_of (snapshot_key_for (as_str cid)) d = Leaf) (bridge_setup P ns opts)"
    by (intro keeps_bridge_setup contract_keeps [OF assms(1)])
  ultimately have "key_of (snapshot_key_for (as_str cid)) (daemon w') = Leaf"
    using keepsD [where m = "bridge_setup P ns opts", OF _ assms(7)] by blast
  with assms(4,6,7) show ?thesis by (simp add: create_stages [OF assms(2)])
qed

theorem failed_bridge_setup_leaks_snapshot_witness:
  "rd_key_of ''default'' (snapshot_key_for ''c1'')
     (daemon (snd (create_container_with_id full_platform ''default'' (ContainerId ''c1'') ''web'' ''nginx'' default_opts (rd_world web_daemon)))) = Leaf"
proof -
  let ?md = "\<lparr>md_chain_id = ''sha256:a'', md_config = \<lparr>ig_config = None, ig_diff_ids = [''sha256:a'']\<rparr>, md_raw_config = ''c''\<rparr>"
  let ?w1 = "store_image_metadata ''sha256:0'' ?md (rd_world web_daemon)"
  note full = full_platform_def rd_platform_def rd_world_def web_daemon_def rd_init_def rd_err_def rpc_call_def call_def
  have l: "create_lookup full_platform ''default'' ''web'' ''nginx'' (rd_world web_daemon) = (Inr ?md, ?w1)"
    by (simp add: full create_lookup_def get_image_def get_image_metadata_def lookup_image_metadata_def fetch_image_metadata_def
        read_content_def parse_error_def config_digest_of_def json_get_def json_digest_def json_as_str_def compute_chain_id_def bind_def)
  obtain w2 where p: "prepare_rootfs full_platform ''default'' (as_str (ContainerId ''c1'')) ''web'' (md_chain_id ?md) default_opts ?w1
      = (Inr (''c1-snapshot'', True), w2)"
    by (simp add: full prepare_rootfs_def default_opts_def snapshot_key_for_def store_image_metadata_def bind_def Let_def)
  have "isl (fst (bridge_setup full_platform ''default'' default_opts w2))"
    by (simp add: bridge_setup_def default_opts_def) (rule bind_always_fails, intro bind_fails_first full_port_fails)
  then obtain e w' where b: "bridge_setup full_platform ''default'' default_opts w2 = (Inl e, w')"
    by (metis isl_def prod.collapse)
  have a: "rd_key_of ''default'' (snapshot_key_for (as_str (ContainerId ''c1''))) (daemon ?w1) = Absent"
    by (simp add: full rd_key_of_def store_image_metadata_def)
  have v: "validate_identifier ''web'' = Inr ()" by code_simp
  show ?thesis using failed_bridge_setup_leaks_snapshot [OF full_snapshot_contract v _ l a p b]
    by (simp add: default_opts_def)
qed

text \<open>
  Image metadata is fetched once for a digest: after a successful lookup every later one, by
  any clone of the client and in whatever namespace, returns the same metadata and makes no call;
  a failed lookup caches nothing.
\<close>

lemma image_metadata_fetched_once:
  "case get_image_metadata P ns digest w of
     (Inr md, w') \<Rightarrow> get_image_metadata P' ns' digest w' = (Inr md, w')
   | (Inl e, w') \<Rightarrow> image_metadata_cache w' = image_metadata_cache w"
proof (cases "lookup_image_metadata digest w")
  case None
  obtain r v where f: "fetch_image_metadata P ns digest w = (r, v)" by fastforce
  from remote_onlyD [OF remote_fetch f] have "image_metadata_cache v = image_metadata_cache w"
    by (metis world.select_convs(4) world.surjective world.update_convs(1))
  with None f show ?thesis
    by (cases r) (simp_all add: get_image_metadata_def lookup_image_metadata_def store_image_metadata_def)
next
  case (Some md)
  then show ?thesis by (simp add: get_image_metadata_def)
qed

end
