(* ===== verification/Task.thy ===== *)
theory Task
  imports Container
begin

text \<open>
  The life of a task (src/src/task.rs) and the client operations that combine it with the log tailer
  and the port forwards (\<^verbatim>\<open>Client::start_container\<close>, \<^verbatim>\<open>Client::delete_container\<close> of src/src/client.rs).

  Operations that poll are programs that may fail to return; they are shown to return on every
  platform whose clock moves while sleeping and is not turned back by a call.
\<close>

section \<open>Model\<close>

definition SIGTERM :: u32 where "SIGTERM = 15"
definition SIGKILL :: u32 where "SIGKILL = 9"

record task_id =
  tid_container_id :: string
  tid_pid :: u32

definition build_create_task_request :: "string \<Rightarrow> mount_msg list \<Rightarrow> string \<Rightarrow> string \<Rightarrow> create_task_msg" where
  "build_create_task_request container_id rootfs stdout stderr =
     \<lparr>ct_container_id = container_id, ct_rootfs = rootfs, ct_stdin = [], ct_stdout = stdout, ct_stderr = stderr,
      ct_terminal = False\<rparr>"

definition start_container :: "'d platform \<Rightarrow> string \<Rightarrow> string \<Rightarrow> ('d, task_id) op" where
  "start_container P ns container_id =
     bind (get_container P ns container_id) (\<lambda>container.
     bind (call (snapshots_mounts P ns (cm_snapshotter container) (cm_snapshot_key container))
             (\<lambda>s. into_crate_error s ''snapshot_mounts'')) (\<lambda>rootfs.
     bind (with_files (prepare_log_files (home_dir P) container_id)) (\<lambda>(stdout_path, stderr_path).
     bind (call (tasks_create P ns (build_create_task_request container_id rootfs stdout_path stderr_path))
             (already_exists_or (TaskAlreadyExists container_id) ''create_task'')) (\<lambda>pid.
     bind (call (tasks_start P ns container_id []) (\<lambda>s. into_crate_error s ''start_task'')) (\<lambda>_ w.
       (Inr \<lparr>tid_container_id = container_id, tid_pid = pid\<rparr>, record_task_start P ns container_id w))))))"

definition stop_task :: "'d platform \<Rightarrow> string \<Rightarrow> string \<Rightarrow> ('d, unit) op" where
  "stop_task P ns container_id =
     call_raw (tasks_kill P ns container_id [] SIGTERM True) (\<lambda>r. case r of
        Inr _ \<Rightarrow> ret ()
      | Inl e \<Rightarrow> if status_code e = Code_NotFound then fail (TaskNotFound container_id)
                else if status_code e = Code_FailedPrecondition then ret ()
                else fail (into_crate_error e ''kill_task''))"

definition kill_task :: "'d platform \<Rightarrow> string \<Rightarrow> string \<Rightarrow> u32 \<Rightarrow> ('d, unit) op" where
  "kill_task P ns container_id signal =
     call_raw (tasks_kill P ns container_id [] signal True) (\<lambda>r. case r of
        Inr _ \<Rightarrow> ret ()
      | Inl e \<Rightarrow> if status_code e = Code_NotFound \<or> status_code e = Code_FailedPrecondition then ret ()
                else fail (into_crate_error e ''kill_task''))"

definition is_task_running :: "'d platform \<Rightarrow> string \<Rightarrow> string \<Rightarrow> 'd world \<Rightarrow> bool \<times> 'd world" where
  "is_task_running P ns container_id w =
     (case get_task_info P ns container_id w of
        (t, w') \<Rightarrow> (case t of None \<Rightarrow> False | Some t \<Rightarrow> ti_status t = Running, w'))"

text \<open>The closure that \<^verbatim>\<open>wait_for_task_stop\<close> polls.\<close>

definition stop_observed :: "'d platform \<Rightarrow> string \<Rightarrow> string \<Rightarrow> 'd world \<Rightarrow> bool \<times> 'd world" where
  "stop_observed P ns container_id w =
     (case inspect_container P ns container_id w of
        (Inr info, w') \<Rightarrow> (case ci_task info of None \<Rightarrow> True | Some t \<Rightarrow> ti_status t = Stopped, w')
      | (Inl e, w') \<Rightarrow> (case e of ContainerNotFound _ \<Rightarrow> True | _ \<Rightarrow> False, w'))"

definition wait_for_task_stop :: "'d platform \<Rightarrow> string \<Rightarrow> string \<Rightarrow> duration \<Rightarrow> ('d, unit) prog" where
  "wait_for_task_stop P ns container_id timeout w =
     poll_until P (now P (daemon w)) timeout (from_millis 100) (''task '' @ container_id @ '' did not stop within '' @ show_duration timeout)
       (stop_observed P ns container_id) w"

definition wait_for_exit_round ::
  "'d platform \<Rightarrow> string \<Rightarrow> string \<Rightarrow> instant \<Rightarrow> duration \<Rightarrow> 'd world \<Rightarrow> int result option \<times> 'd world" where
  "wait_for_exit_round P ns container_id start timeout w =
     (if elapsed P start w > timeout then (Some (Inl (Timeout (''task '' @ container_id @ '' did not exit within '' @ show_duration timeout))), w)
      else (case inspect_container P ns container_id w of
         (Inr info, w') \<Rightarrow>
           (case ci_task info of
              None \<Rightarrow> None
            | Some task \<Rightarrow>
              if ti_status task = Stopped
              then Some (ok_or (ti_exit_code task) (TaskExited (''task '' @ container_id @ '' stopped but no exit code reported'')))
              else None, w')
       | (Inl e, w') \<Rightarrow> (case e of ContainerNotFound _ \<Rightarrow> Some (Inl (ContainerNotFound container_id)) | _ \<Rightarrow> None, w')))"

definition wait_for_exit :: "'d platform \<Rightarrow> string \<Rightarrow> string \<Rightarrow> duration \<Rightarrow> ('d, int) prog" where
  "wait_for_exit P ns container_id timeout w =
     retry_loop P (from_millis 100) (wait_for_exit_round P ns container_id (now P (daemon w)) timeout) w"

definition is_retryable_delete_error :: "error \<Rightarrow> bool" where
  "is_retryable_delete_error err =
     (case err of
        Containerd _ source \<Rightarrow> status_code source \<in> {Code_FailedPrecondition, Code_Unavailable, Code_Internal,
                                                    Code_Aborted, Code_DeadlineExceeded}
      | _ \<Rightarrow> False)"

definition delete_task :: "'d platform \<Rightarrow> string \<Rightarrow> string \<Rightarrow> ('d, unit) op" where
  "delete_task P ns container_id =
     call_raw (tasks_delete P ns container_id) (\<lambda>r.
       let result = (case r of Inr _ \<Rightarrow> Inr ()
                     | Inl e \<Rightarrow> if status_code e = Code_NotFound then Inr () else Inl (into_crate_error e ''delete_task''))
       in (\<lambda>w. (result, if isl result then w else forget_task_start ns container_id w)))"

definition retry_delete_round ::
  "'d platform \<Rightarrow> string \<Rightarrow> string \<Rightarrow> instant \<Rightarrow> duration \<Rightarrow> 'd world \<Rightarrow> unit result option \<times> 'd world" where
  "retry_delete_round P ns container_id start timeout w =
     (case delete_task P ns container_id w of
        (Inr _, w') \<Rightarrow> (Some (Inr ()), w')
      | (Inl e, w') \<Rightarrow>
        (if \<not> is_retryable_delete_error e then Some (Inl e)
         else if elapsed P start w' \<ge> timeout then Some (Inl e) else None, w'))"

definition retry_delete_task :: "'d platform \<Rightarrow> string \<Rightarrow> string \<Rightarrow> duration \<Rightarrow> ('d, unit) prog" where
  "retry_delete_task P ns container_id timeout w =
     retry_loop P (from_millis 50) (retry_delete_round P ns container_id (now P (daemon w)) timeout) w"

definition remove_container :: "'d platform \<Rightarrow> string \<Rightarrow> string \<Rightarrow> ('d, unit) op" where
  "remove_container P ns container_id =
     call_raw (containers_get P ns container_id) (\<lambda>got.
       let snapshotter = (case got of Inr (Some c) \<Rightarrow> cm_snapshotter c | _ \<Rightarrow> DEFAULT_SNAPSHOTTER)
       in call_raw (containers_delete P ns container_id) (\<lambda>r.
            let result = (case r of Inr _ \<Rightarrow> Inr ()
                          | Inl e \<Rightarrow> if status_code e = Code_NotFound then Inr () else Inl (into_crate_error e ''delete_container''))
            in call_raw (snapshots_remove P ns snapshotter (snapshot_key_for container_id)) (\<lambda>_ w.
                 (result, w\<lparr>files := cleanup_log_files (home_dir P) container_id (files w)\<rparr>))))"

definition stop_container :: "'d platform \<Rightarrow> string \<Rightarrow> string \<Rightarrow> duration \<Rightarrow> ('d, unit) prog" where
  "stop_container P ns container_id timeout =
     (let sigterm_grace = min (timeout div 2) (from_secs 5)
      in p_try (p_lift (stop_task P ns container_id)) (\<lambda>_.
         p_try (wait_for_task_stop P ns container_id sigterm_grace) (\<lambda>_ w.
           (case is_task_running P ns container_id w of
              (running, w') \<Rightarrow>
                if running
                then p_try (p_lift (kill_task P ns container_id SIGKILL))
                       (\<lambda>_. wait_for_task_stop P ns container_id (timeout - sigterm_grace)) w'
                else Some (Inr (), w')))))"

text \<open>The closures of the three phases of \<^verbatim>\<open>delete_container\<close>.\<close>

definition task_deleted :: "'d platform \<Rightarrow> string \<Rightarrow> string \<Rightarrow> 'd world \<Rightarrow> bool \<times> 'd world" where
  "task_deleted P ns container_id w = (case delete_task P ns container_id w of (r, w') \<Rightarrow> (\<not> isl r, w'))"

definition task_record_gone :: "'d platform \<Rightarrow> string \<Rightarrow> string \<Rightarrow> 'd world \<Rightarrow> bool \<times> 'd world" where
  "task_record_gone P ns container_id w =
     (case inspect_container P ns container_id w of
        (Inr info, w') \<Rightarrow>
          (case ci_task info of
             None \<Rightarrow> (True, w')
           | Some task \<Rightarrow> (False, if ti_status task = Stopped then snd (delete_task P ns container_id w') else w'))
      | (Inl _, w') \<Rightarrow> (True, w'))"

definition container_record_gone :: "'d platform \<Rightarrow> string \<Rightarrow> string \<Rightarrow> 'd world \<Rightarrow> bool \<times> 'd world" where
  "container_record_gone P ns container_id w =
     (case inspect_container P ns container_id w of
        (Inr _, w') \<Rightarrow> (False, snd (remove_container P ns container_id w'))
      | (Inl e, w') \<Rightarrow> (case e of ContainerNotFound _ \<Rightarrow> True | _ \<Rightarrow> False, w'))"

definition delete_container :: "'d platform \<Rightarrow> string \<Rightarrow> string \<Rightarrow> duration \<Rightarrow> ('d, unit) prog" where
  "delete_container P ns container_id timeout =
     (let poll_interval = from_millis 100
      in p_try (stop_container P ns container_id timeout) (\<lambda>_.
         p_bind (\<lambda>w. poll_until P (now P (daemon w)) timeout poll_interval
                   (''delete_container[phase=delete_task] timed out for '' @ container_id) (task_deleted P ns container_id) w) (\<lambda>_.
         p_bind (\<lambda>w. poll_until P (now P (daemon w)) timeout poll_interval
                   (''delete_container[phase=task_record_gone] timed out for '' @ container_id @ '' within '' @ show_duration timeout) (task_record_gone P ns container_id) w) (\<lambda>_.
         p_try (p_lift (remove_container P ns container_id)) (\<lambda>_.
           (\<lambda>w. poll_until P (now P (daemon w)) timeout poll_interval
                   (''delete_container[phase=container_record_gone] timed out for '' @ container_id @ '' within '' @ show_duration timeout)
                   (container_record_gone P ns container_id) w))))))"

definition pause_container :: "'d platform \<Rightarrow> string \<Rightarrow> string \<Rightarrow> ('d, unit) op" where
  "pause_container P ns container_id = call (tasks_pause P ns container_id) (not_found_or (TaskNotFound container_id) ''pause_task'')"

definition unpause_container :: "'d platform \<Rightarrow> string \<Rightarrow> string \<Rightarrow> ('d, unit) op" where
  "unpause_container P ns container_id = call (tasks_resume P ns container_id) (not_found_or (TaskNotFound container_id) ''unpause_task'')"

section \<open>The client's view\<close>

definition client_start_container :: "'d platform \<Rightarrow> string \<Rightarrow> container_id \<Rightarrow> ('d, task_id) op" where
  "client_start_container P ns container_id =
     bind (start_container P ns (as_str container_id)) (\<lambda>task_id.
     bind (start_managed_tailer P ns (as_str container_id)) (\<lambda>_. ret task_id))"

definition client_delete_container :: "'d platform \<Rightarrow> string \<Rightarrow> container_id \<Rightarrow> duration \<Rightarrow> ('d, unit) prog" where
  "client_delete_container P ns container_id timeout w =
     map_option (\<lambda>(r, w'). (r, stop_managed_tailer P ns (as_str container_id) (stop_managed_forwards (as_str container_id) w')))
       (delete_container P ns (as_str container_id) timeout w)"

definition inspect_by_name :: "'d platform \<Rightarrow> string \<Rightarrow> string \<Rightarrow> ('d, container_info) op" where
  "inspect_by_name P ns name = bind (resolve_name P ns name) (\<lambda>cid. inspect_container P ns (as_str cid))"

section \<open>What the operations keep\<close>

lemma daemon_start_times [simp]:
  "daemon (forget_task_start ns c w) = daemon w" "daemon (record_task_start P ns c w) = daemon w"
  by (simp_all add: forget_task_start_def record_task_start_def)

lemma keeps_fun: "(\<And>w. daemon (f w) = daemon w) \<Longrightarrow> keeps I (\<lambda>w. (r w, f w))"
  by (simp add: keeps_def)

lemma keeps_get_container: "calls_keep P ns A I \<Longrightarrow> keeps I (get_container P ns c)"
  unfolding get_container_def by (intro keeps_intros calls_keepD)

lemma keeps_get_task_info: "calls_keep P ns A I \<Longrightarrow> keeps I (get_task_info P ns c)"
  by (rule keepsI)
    (auto simp: get_task_info_def Let_def dest: keepsD [OF keeps_rpc_call [OF calls_keepD(15)]]
      split: prod.splits sum.splits option.splits)

lemma keeps_inspect: 
  assumes "calls_keep P ns A I"
  shows "keeps I (inspect_container P ns c)"
  unfolding inspect_container_def
proof (rule keeps_bind [OF keeps_get_container [OF assms]], rule keepsI)
  fix container w r w' assume "I (daemon w)"
    and "(case get_task_info P ns (cm_id container) w of (task, w') \<Rightarrow> (container_to_info P container task, w')) = (r, w')"
  with keepsD [OF keeps_get_task_info [OF assms]] show "I (daemon w')" by (auto split: prod.splits)
qed

lemma keeps_kill: "calls_keep P ns A I \<Longrightarrow> keeps I (stop_task P ns c)" "calls_keep P ns A I \<Longrightarrow> keeps I (kill_task P ns c g)"
  unfolding stop_task_def kill_task_def
  by (auto intro!: keeps_intros calls_keepD split: sum.split)

lemma keeps_delete_task: "calls_keep P ns A I \<Longrightarrow> Task_Removed c \<in> A \<Longrightarrow> keeps I (delete_task P ns c)"
  unfolding delete_task_def by (intro keeps_call_raw calls_keepD) (auto simp: Let_def intro!: keeps_fun)

lemma keeps_remove_container:
  "calls_keep P ns A I \<Longrightarrow> Record_Removed c \<in> A \<Longrightarrow> Layer_Lost (snapshot_key_for c) \<in> A \<Longrightarrow> keeps I (remove_container P ns c)"
  unfolding remove_container_def Let_def by (intro keeps_call_raw calls_keepD keeps_fun) simp_all

lemma keeps_is_running: "calls_keep P ns A I \<Longrightarrow> keeps I (is_task_running P ns c)"
  by (rule keepsI) (auto simp: is_task_running_def dest: keepsD [OF keeps_get_task_info] split: prod.splits)

lemma keeps_stop_observed: "calls_keep P ns A I \<Longrightarrow> keeps I (stop_observed P ns c)"
  by (rule keepsI) (auto simp: stop_observed_def dest: keepsD [OF keeps_inspect] split: prod.splits sum.splits)

lemma keeps_wait_for_exit_round: "calls_keep P ns A I \<Longrightarrow> keeps I (wait_for_exit_round P ns c start timeout)"
  by (rule keepsI) (auto simp: wait_for_exit_round_def dest: keepsD [OF keeps_inspect] split: prod.splits sum.splits if_splits)

lemma keeps_retry_delete_round: "calls_keep P ns A I \<Longrightarrow> Task_Removed c \<in> A \<Longrightarrow> keeps I (retry_delete_round P ns c start timeout)"
  by (rule keepsI) (auto simp: retry_delete_round_def dest: keepsD [OF keeps_delete_task] split: prod.splits sum.splits)

lemma keeps_task_deleted: "calls_keep P ns A I \<Longrightarrow> Task_Removed c \<in> A \<Longrightarrow> keeps I (task_deleted P ns c)"
  by (rule keepsI) (auto simp: task_deleted_def dest: keepsD [OF keeps_delete_task] split: prod.splits)

lemma keeps_task_record_gone:
  assumes "calls_keep P ns A I" "Task_Removed c \<in> A"
  shows "keeps I (task_record_gone P ns c)"
  using keepsD [OF keeps_inspect [OF assms(1)], of c] assms keeps_delete_task [OF assms, unfolded keeps_def]
  by (intro keepsI) (auto simp: task_record_gone_def split: prod.splits sum.splits option.splits if_splits)

lemma keeps_container_record_gone:
  assumes "calls_keep P ns A I" "Record_Removed c \<in> A" "Layer_Lost (snapshot_key_for c) \<in> A"
  shows "keeps I (container_record_gone P ns c)"
  using keepsD [OF keeps_inspect [OF assms(1)], of c] assms keeps_remove_container [OF assms, unfolded keeps_def]
  by (intro keepsI) (auto simp: container_record_gone_def split: prod.splits sum.splits)

lemmas task_keeps = keeps_get_container keeps_get_task_info keeps_inspect keeps_kill keeps_delete_task keeps_remove_container
  keeps_is_running keeps_stop_observed keeps_wait_for_exit_round keeps_retry_delete_round keeps_task_deleted
  keeps_task_record_gone keeps_container_record_gone

lemma task_steady:
  assumes "clock_monotone P ns"
  shows "steady P (inspect_container P ns c)" "steady P (stop_task P ns c)" "steady P (kill_task P ns c g)"
    "steady P (delete_task P ns c)" "steady P (remove_container P ns c)" "steady P (is_task_running P ns c)"
    "steady P (stop_observed P ns c)" "steady P (wait_for_exit_round P ns c start timeout)"
    "steady P (retry_delete_round P ns c start timeout)" "steady P (task_deleted P ns c)"
    "steady P (task_record_gone P ns c)" "steady P (container_record_gone P ns c)"
  by (rule steadyI, rule task_keeps, rule clock_monotoneD, rule assms, ((rule UNIV_I)+)?)+

section \<open>Termination\<close>

lemma millis_pos [simp]: "0 < n \<Longrightarrow> 0 < from_millis n"
  by (simp add: from_millis_def)

lemma returns_wait_for_task_stop [returns_intros]:
  "clock_sleeps P \<Longrightarrow> clock_monotone P ns \<Longrightarrow> returns P (wait_for_task_stop P ns c timeout)"
  unfolding wait_for_task_stop_def [abs_def] by (intro returns_intros task_steady) simp_all

lemma returns_stop_container [returns_intros]:
  assumes "clock_sleeps P" "clock_monotone P ns"
  shows "returns P (stop_container P ns c timeout)"
proof -
  let ?kill = "p_try (p_lift (kill_task P ns c SIGKILL)) (\<lambda>_. wait_for_task_stop P ns c (timeout - min (timeout div 2) (from_secs 5)))"
  have k: "returns P ?kill" by (intro returns_intros task_steady assms)
  have "returns P (\<lambda>w. case is_task_running P ns c w of (running, w') \<Rightarrow> if running then ?kill w' else Some (Inr (), w'))"
    unfolding returns_def
  proof
    fix w
    obtain b v where v: "is_task_running P ns c w = (b, v)" by fastforce
    have "now P (daemon w) \<le> now P (daemon v)" using steadyD [OF task_steady(6) [OF assms(2)]] v by (metis snd_conv)
    with k v show "\<exists>r w'. (case is_task_running P ns c w of (running, w') \<Rightarrow> if running then ?kill w' else Some (Inr (), w')) = Some (r, w')
        \<and> now P (daemon w) \<le> now P (daemon w')"
      by (cases b) (auto elim!: returnsE [where w = v] intro: order_trans)
  qed
  then show ?thesis
    unfolding stop_container_def Let_def by (intro returns_intros task_steady assms)
qed

lemma returns_delete_container [returns_intros]:
  assumes "clock_sleeps P" "clock_monotone P ns"
  shows "returns P (delete_container P ns c timeout)"
  unfolding delete_container_def Let_def by (intro returns_intros task_steady assms) simp_all

lemma returns_wait_for_exit [returns_intros]:
  assumes "clock_sleeps P" "clock_monotone P ns"
  shows "returns P (wait_for_exit P ns c timeout)"
  unfolding returns_def wait_for_exit_def
proof
  fix w
  show "\<exists>r w'. retry_loop P (from_millis 100) (wait_for_exit_round P ns c (now P (daemon w)) timeout) w = Some (r, w')
      \<and> now P (daemon w) \<le> now P (daemon w')"
    by (rule retry_loop_returns [where deadline = "now P (daemon w) + timeout"])
      (use assms in \<open>auto intro: task_steady simp: wait_for_exit_round_def elapsed_def\<close>)
qed

lemma returns_retry_delete_task [returns_intros]:
  assumes "clock_sleeps P" "clock_monotone P ns"
  shows "returns P (retry_delete_task P ns c timeout)"
  unfolding returns_def retry_delete_task_def
proof
  fix w :: "'a world"
  let ?round = "retry_delete_round P ns c (now P (daemon w)) timeout"
  have "fst (?round v) \<noteq> None" if "now P (daemon w) + timeout < now P (daemon v)" for v
  proof -
    have "now P (daemon v) \<le> now P (daemon (snd (delete_task P ns c v)))" using steadyD [OF task_steady(4) [OF assms(2)]] .
    with that show ?thesis by (auto simp: retry_delete_round_def elapsed_def split: prod.split sum.split)
  qed
  then show "\<exists>r w'. retry_loop P (from_millis 50) ?round w = Some (r, w') \<and> now P (daemon w) \<le> now P (daemon w')"
    by (intro retry_loop_returns [where deadline = "now P (daemon w) + timeout"] assms task_steady) simp_all
qed

lemma daemon_stop_managed [simp]:
  "daemon (stop_managed_forwards c w) = daemon w" "daemon (stop_managed_tailer P ns c w) = daemon w"
  by (simp_all add: stop_managed_forwards_def stop_managed_tailer_def tailer_stop_def Let_def split: option.split prod.split)

lemma returns_client_delete [returns_intros]:
  assumes "clock_sleeps P" "clock_monotone P ns"
  shows "returns P (client_delete_container P ns cid timeout)"
  unfolding returns_def
proof
  fix w
  obtain r v where "delete_container P ns (as_str cid) timeout w = Some (r, v)" "now P (daemon w) \<le> now P (daemon v)"
    by (rule returnsE [OF returns_delete_container [OF assms]])
  then show "\<exists>r w'. client_delete_container P ns cid timeout w = Some (r, w') \<and> now P (daemon w) \<le> now P (daemon w')"
    by (simp add: client_delete_container_def)
qed

section \<open>Client state\<close>

definition record_missing :: "status + container_msg option \<Rightarrow> bool" where
  "record_missing r \<longleftrightarrow> r = Inr None \<or> (\<exists>s. r = Inl s \<and> status_code s = Code_NotFound)"

lemma container_to_info_error: "container_to_info P c t = Inl e \<Longrightarrow> \<exists>m. e = InvalidArgument m"
  by (auto simp: container_to_info_def from_existing_def Let_def result_bind_def dest!: validate_identifier_error
      split: prod.splits sum.splits option.splits)

lemma inspect_not_found:
  assumes "inspect_container P ns c w = (Inl (ContainerNotFound x), w')"
  obtains r where "containers_get P ns c (daemon w) = (r, daemon w')" "record_missing r"
proof -
  obtain r d where r: "containers_get P ns c (daemon w) = (r, d)" by fastforce
  with assms that show thesis
    by (cases r)
      (auto simp: inspect_container_def get_container_def bind_def call_def rpc_call_def record_missing_def not_found_or_def
        into_crate_error_def ok_or_def dest: container_to_info_error split: if_splits option.splits prod.splits)
qed

lemma remote_inspect [remote_intros]: "remote_only (inspect_container P ns c)"
proof -
  have "remote_only (get_container P ns c)" unfolding get_container_def by (intro remote_intros)
  moreover have "remote_only (get_task_info P ns c)" for c
    by (rule remote_onlyI) (auto simp: get_task_info_def Let_def rpc_call_def split: prod.splits sum.splits option.splits)
  then have "remote_only (\<lambda>w. case get_task_info P ns c w of (task, w') \<Rightarrow> (container_to_info P m task, w'))" for c m
    by (intro remote_onlyI) (auto dest: remote_onlyD split: prod.splits)
  ultimately show ?thesis unfolding inspect_container_def by (rule remote_bind)
qed

lemma inspect_start_times: "inspect_container P ns c w = (r, w') \<Longrightarrow> task_start_times w' = task_start_times w"
  by (metis remote_onlyD remote_inspect world.select_convs(5) world.surjective world.update_convs(1))

lemma delete_task_start_times:
  "task_start_times (snd (delete_task P ns c w)) = task_start_times w \<or>
   task_start_times (snd (delete_task P ns c w)) = (task_start_times w)(ns_key ns c := None)"
  "delete_task P ns c w = (Inr x, w') \<Longrightarrow> task_start_times w' (ns_key ns c) = None"
  by (auto simp: delete_task_def call_raw_def rpc_call_def Let_def forget_task_start_def split: prod.splits)

lemma remove_container_start_times: "task_start_times (snd (remove_container P ns c w)) = task_start_times w"
  by (simp add: remove_container_def call_raw_def rpc_call_def Let_def split: prod.split)

text \<open>Once forgotten, the start time stays forgotten through the rest of a deletion.\<close>

lemma phases_forget:
  assumes "task_start_times w (ns_key ns c) = None"
  shows "task_start_times (snd (task_record_gone P ns c w)) (ns_key ns c) = None"
    and "task_start_times (snd (container_record_gone P ns c w)) (ns_key ns c) = None"
proof -
  obtain r v where r: "inspect_container P ns c w = (r, v)" by fastforce
  note v = inspect_start_times [OF r]
  show "task_start_times (snd (task_record_gone P ns c w)) (ns_key ns c) = None"
    using assms r v delete_task_start_times(1) [of P ns c v]
    by (auto simp: task_record_gone_def split: sum.split option.split)
  show "task_start_times (snd (container_record_gone P ns c w)) (ns_key ns c) = None"
    using assms r v by (auto simp: container_record_gone_def remove_container_start_times split: sum.split)
qed

lemma poll_forgets:
  assumes "poll_until P start timeout interval msg pred w = Some (r, w')" "task_start_times w k = None"
    and "\<And>v. task_start_times v k = None \<Longrightarrow> task_start_times (snd (pred v)) k = None"
  shows "task_start_times w' k = None"
  using poll_until_invariant [where I = "\<lambda>w. task_start_times w k = None", OF assms] by (simp add: sleep_op_def)

section \<open>What the daemon shows of a task\<close>

text \<open>In every state of \<open>I\<close> the daemon has the record of \<open>c\<close> and reports its task with status \<open>st\<close>.\<close>

definition task_shows :: "'d platform \<Rightarrow> string \<Rightarrow> string \<Rightarrow> task_status \<Rightarrow> ('d \<Rightarrow> bool) \<Rightarrow> bool" where
  "task_shows P ns c st I \<longleftrightarrow> validate_identifier c = Inr () \<and> (\<forall>d. I d \<longrightarrow>
     (\<exists>m d'. containers_get P ns c d = (Inr (Some m), d') \<and> cm_id m = c \<and> I d')
   \<and> (\<exists>p d'. tasks_get P ns c [] d = (Inr (Some p), d') \<and> task_status_from P (pm_status p) = st \<and> I d'))"

lemma task_shows_info:
  assumes "task_shows P ns c st I" "I (daemon w)"
  obtains t w' where "get_task_info P ns c w = (Some t, w')" "ti_status t = st" "I (daemon w')"
proof -
  from assms obtain p d where "tasks_get P ns c [] (daemon w) = (Inr (Some p), d)" "task_status_from P (pm_status p) = st" "I d"
    unfolding task_shows_def by blast
  then show thesis by (intro that) (simp add: get_task_info_def rpc_call_def Let_def)+
qed

lemma task_shows_inspect:
  assumes "task_shows P ns c st I" "I (daemon w)"
  obtains info t w' where "inspect_container P ns c w = (Inr info, w')" "ci_task info = Some t" "ti_status t = st" "I (daemon w')"
proof -
  from assms obtain m d where m: "containers_get P ns c (daemon w) = (Inr (Some m), d)" "cm_id m = c" "I d"
    unfolding task_shows_def by blast
  obtain t v where t: "get_task_info P ns c (w\<lparr>daemon := d\<rparr>) = (Some t, v)" "ti_status t = st" "I (daemon v)"
    by (rule task_shows_info [OF assms(1), where w = "w\<lparr>daemon := d\<rparr>"]) (simp_all add: m)
  have "\<exists>info. container_to_info P m (Some t) = Inr info \<and> ci_task info = Some t"
    using assms(1) m(2) by (simp add: task_shows_def container_to_info_def from_existing_def Let_def split: prod.split)
  then obtain info where "container_to_info P m (Some t) = Inr info" "ci_task info = Some t" by blast
  with m t show thesis
    by (intro that) (simp add: inspect_container_def get_container_def bind_def call_def rpc_call_def)+
qed

lemma task_shows_observed:
  assumes "task_shows P ns c st I" "I (daemon w)"
  obtains w' where "stop_observed P ns c w = (st = Stopped, w')" "I (daemon w')"
  by (rule task_shows_inspect [OF assms]) (auto simp: stop_observed_def intro: that)

lemma task_shows_running:
  assumes "task_shows P ns c st I" "I (daemon w)"
  obtains w' where "is_task_running P ns c w = (st = Running, w')" "I (daemon w')"
  by (rule task_shows_info [OF assms]) (auto simp: is_task_running_def intro: that)

lemma kill_daemon:
  "daemon (snd (stop_task P ns c w)) = snd (tasks_kill P ns c [] SIGTERM True (daemon w))"
  "daemon (snd (kill_task P ns c g w)) = snd (tasks_kill P ns c [] g True (daemon w))"
  by (auto simp: stop_task_def kill_task_def call_raw_def rpc_call_def split: prod.split sum.split)

lemma container_to_info_task: "container_to_info P m t = Inr info \<Longrightarrow> ci_task info = t"
  by (auto simp: container_to_info_def Let_def result_bind_def split: prod.splits sum.splits)

lemma exit_code_range: "0 \<le> exit_code_saturating x" "exit_code_saturating x < 2 ^ 31"
proof -
  have "int (unat x) < 2 ^ 31" if "unat x < 2 ^ 31"
    using that by (metis of_nat_less_iff of_nat_numeral of_nat_power)
  then show "exit_code_saturating x < 2 ^ 31" by (auto simp: exit_code_saturating_def)
qed (simp add: exit_code_saturating_def)

text \<open>A stopped task is always shown with its exit code.\<close>

lemma inspect_stopped_code:
  assumes "inspect_container P ns c v = (Inr info, w')" "ci_task info = Some t" "ti_status t = Stopped"
  shows "\<exists>i p d. tasks_get P ns i [] d = (Inr (Some p), daemon w') \<and> task_status_from P (pm_status p) = Stopped
    \<and> ti_exit_code t = Some (exit_code_saturating (pm_exit_status p))"
proof -
  from assms(1) obtain m :: container_msg and u where "get_task_info P ns (cm_id m) u = (ci_task info, w')"
    by (auto simp: inspect_container_def elim!: bindE dest!: container_to_info_task split: prod.splits)
  with assms(2,3) show ?thesis
    by (auto simp: get_task_info_def rpc_call_def Let_def split: prod.splits sum.splits option.splits if_splits)
      (metis fst_conv)
qed

text \<open>Waiting for a stop keeps what the observations and the passing of time keep.\<close>

lemma wait_for_task_stop_keeps:
  assumes "clock_sleeps P" "clock_monotone P ns" "I (daemon w)"
    and "\<And>v. I (daemon v) \<Longrightarrow> I (daemon (snd (stop_observed P ns c v)))" "\<And>d t. I d \<Longrightarrow> I (sleep P t d)"
  obtains r w' where "wait_for_task_stop P ns c timeout w = Some (r, w')" "I (daemon w')"
proof -
  obtain r v where r: "wait_for_task_stop P ns c timeout w = Some (r, v)"
    by (rule returnsE [OF returns_wait_for_task_stop [OF assms(1,2)]])
  have "I (daemon v)"
    by (rule poll_until_invariant [where I = "\<lambda>w. I (daemon w)", OF r [unfolded wait_for_task_stop_def] assms(3)])
      (simp_all add: assms(4,5) sleep_op_def)
  with r show thesis by (rule that)
qed

text \<open>In every state of \<open>I\<close> the daemon answers the call with \<^verbatim>\<open>NotFound\<close>.\<close>

definition answers_not_found :: "('d \<Rightarrow> bool) \<Rightarrow> ('d, 'a) rpc \<Rightarrow> bool" where
  "answers_not_found I f \<longleftrightarrow> (\<forall>d. I d \<longrightarrow> (\<exists>s d'. f d = (Inl s, d') \<and> status_code s = Code_NotFound \<and> I d'))"

definition container_gone :: "'d platform \<Rightarrow> string \<Rightarrow> string \<Rightarrow> ('d \<Rightarrow> bool) \<Rightarrow> bool" where
  "container_gone P ns c I \<longleftrightarrow>
     answers_not_found I (containers_get P ns c) \<and> answers_not_found I (containers_delete P ns c)
   \<and> (\<forall>g. answers_not_found I (tasks_kill P ns c [] g True)) \<and> answers_not_found I (tasks_delete P ns c)
   \<and> answers_not_found I (tasks_get P ns c []) \<and> (\<forall>s k. rpc_keeps I (snapshots_remove P ns s k))"

lemma gone_inspect:
  assumes "container_gone P ns c I" "I (daemon w)"
  obtains w' where "inspect_container P ns c w = (Inl (ContainerNotFound c), w')" "I (daemon w')"
proof -
  from assms obtain s d where "containers_get P ns c (daemon w) = (Inl s, d)" "status_code s = Code_NotFound" "I d"
    unfolding container_gone_def answers_not_found_def by blast
  then show thesis
    by (intro that) (simp add: inspect_container_def get_container_def bind_def call_def rpc_call_def not_found_or_def)+
qed

lemma gone_running:
  assumes "container_gone P ns c I" "I (daemon w)"
  obtains w' where "is_task_running P ns c w = (False, w')" "I (daemon w')"
proof -
  from assms obtain s d where "tasks_get P ns c [] (daemon w) = (Inl s, d)" "I d"
    unfolding container_gone_def answers_not_found_def by blast
  then show thesis by (intro that) (simp add: is_task_running_def get_task_info_def rpc_call_def)+
qed

lemma gone_deleted:
  assumes "container_gone P ns c I" "I (daemon w)"
  obtains w' where "task_deleted P ns c w = (True, w')" "I (daemon w')"
proof -
  from assms obtain s d where "tasks_delete P ns c (daemon w) = (Inl s, d)" "status_code s = Code_NotFound" "I d"
    unfolding container_gone_def answers_not_found_def by blast
  then show thesis by (intro that) (simp add: task_deleted_def delete_task_def call_raw_def rpc_call_def Let_def)+
qed

lemma gone_remove:
  assumes "container_gone P ns c I" "I (daemon w)"
  shows "I (daemon (snd (remove_container P ns c w)))"
proof -
  from assms obtain s d s' d' where a: "containers_get P ns c (daemon w) = (Inl s, d)" "I d"
    "containers_delete P ns c d = (Inl s', d')" "I d'" "\<And>s k. rpc_keeps I (snapshots_remove P ns s k)"
    unfolding container_gone_def answers_not_found_def by meson
  then show ?thesis
    by (auto simp: remove_container_def call_raw_def rpc_call_def Let_def dest: rpc_keepsD [OF a(5)] split: prod.split)
qed

lemma gone_delete:
  assumes "container_gone P ns c I" "I (daemon w)" "as_str cid = c"
  obtains w' where "client_delete_container P ns cid timeout w = Some (Inr (), w')" "I (daemon w')"
proof -
  note gone = assms(1)
  let ?grace = "min (timeout div 2) (from_secs 5)"
  obtain r1 w1 where w1: "stop_task P ns c w = (r1, w1)" by fastforce
  have "I (snd (tasks_kill P ns c [] SIGTERM True (daemon w)))"
    using gone assms(2) unfolding container_gone_def answers_not_found_def by (metis snd_conv)
  with w1 have i1: "I (daemon w1)" using kill_daemon(1) [of P ns c w] by simp
  obtain w2 where w2: "stop_observed P ns c w1 = (True, w2)" "I (daemon w2)"
    by (rule gone_inspect [OF gone i1]) (auto simp: stop_observed_def intro: that)
  obtain w3 where w3: "is_task_running P ns c w2 = (False, w3)" "I (daemon w3)" by (rule gone_running [OF gone w2(2)])
  have stop: "stop_container P ns c timeout w = Some (Inr (), w3)"
    using w1 w2 w3 by (simp add: stop_container_def Let_def wait_for_task_stop_def poll_until_at_once)
  obtain w4 where w4: "task_deleted P ns c w3 = (True, w4)" "I (daemon w4)" by (rule gone_deleted [OF gone w3(2)])
  obtain w5 where w5: "task_record_gone P ns c w4 = (True, w5)" "I (daemon w5)"
    by (rule gone_inspect [OF gone w4(2)]) (auto simp: task_record_gone_def intro: that)
  obtain r6 w6 where w6: "remove_container P ns c w5 = (r6, w6)" by fastforce
  then have i6: "I (daemon w6)" using gone_remove [OF gone w5(2)] by simp
  obtain w7 where w7: "container_record_gone P ns c w6 = (True, w7)" "I (daemon w7)"
    by (rule gone_inspect [OF gone i6]) (auto simp: container_record_gone_def intro: that)
  have "delete_container P ns c timeout w = Some (Inr (), w7)"
    using stop w4 w5 w6 w7 by (simp add: delete_container_def Let_def poll_until_at_once)
  then have "client_delete_container P ns cid timeout w = Some (Inr (), stop_managed_tailer P ns c (stop_managed_forwards c w7))"
    using assms(3) by (simp add: client_delete_container_def)
  moreover have "daemon (stop_managed_tailer P ns c (stop_managed_forwards c w7)) = daemon w7"
    by (simp add: stop_managed_tailer_def stop_managed_forwards_def Let_def split: option.split)
  ultimately show thesis using w7(2) that by metis
qed

text \<open>The reference daemon without containers, and with one task of a given status.\<close>

lemma rd_gone: "container_gone rd_platform ''default'' ''c'' (\<lambda>d. d = rd_init)"
  by (simp add: container_gone_def answers_not_found_def rd_platform_def rd_init_def rd_err_def rd_task_op_def rpc_keeps_def)

definition rd_started :: "rd world" where
  "rd_started = record_task_start rd_platform ''default'' ''c'' (rd_world rd_init)"

definition rd_with_task :: "int \<Rightarrow> rd" where
  "rd_with_task st = rd_init\<lparr>rd_containers := [(''default/c'', \<lparr>cm_id = ''c'', cm_image = ''i'', cm_runtime = None, cm_spec = None,
       cm_snapshotter = ''overlayfs'', cm_snapshot_key = ''c-snapshot'', cm_labels = []\<rparr>)],
     rd_tasks := [(''default/c'', \<lparr>pm_container_id = ''c'', pm_pid = 100, pm_status = st, pm_exit_status = 0\<rparr>)]\<rparr>"

definition rd_task_is :: "int \<Rightarrow> rd \<Rightarrow> bool" where
  "rd_task_is st d \<longleftrightarrow> rd_containers d = rd_containers (rd_with_task st)
     \<and> (\<exists>ex. rd_tasks d = [(''default/c'', \<lparr>pm_container_id = ''c'', pm_pid = 100, pm_status = st, pm_exit_status = ex\<rparr>)])"

definition rd_ready :: rd where
  "rd_ready = (rd_with_task 1)\<lparr>rd_tasks := [],
     rd_snapshots := [(''default/c-snapshot'', \<lparr>sm_name = ''c-snapshot'', sm_parent = [], sm_labels = [], sm_created_at = None\<rparr>)]\<rparr>"

lemmas rd_task_defs = rd_task_is_def rd_with_task_def rd_platform_def rd_key_def rd_task_op_def rd_set_status_def rd_err_def

lemma rd_shows: "st = task_status_from rd_platform n \<Longrightarrow> task_shows rd_platform ''default'' ''c'' st (rd_task_is n)"
proof -
  have "validate_identifier ''c'' = Inr ()" by code_simp
  then show "st = task_status_from rd_platform n \<Longrightarrow> ?thesis" by (auto simp: task_shows_def rd_task_defs)
qed

lemma rd_statuses [simp]:
  "task_status_from rd_platform 2 = Running" "task_status_from rd_platform 3 = Stopped" "task_status_from rd_platform 4 = Paused"
  by (simp_all add: task_status_from_def rd_platform_def)

lemma rd_sleeps: "rd_task_is n d \<Longrightarrow> rd_task_is n (sleep rd_platform t d)"
  by (auto simp: rd_task_defs)

lemma rd_kills: "rd_task_is 2 d \<Longrightarrow> rd_task_is 3 (snd (tasks_kill rd_platform ''default'' ''c'' [] g True d))"
  by (auto simp: rd_task_defs)

lemma rd_frozen: "rd_task_is 4 d \<Longrightarrow> rd_task_is 4 (snd (tasks_kill rd_platform ''default'' ''c'' [] SIGTERM True d))"
  by (auto simp: rd_task_defs SIGTERM_def)

section \<open>Properties\<close>

text \<open>
  C24: a successful deletion leaves nothing behind: the last answer of the daemon was that the
  record does not exist, and the client has no start time, no tailer and no port forward for the
  container any more.
\<close>

theorem delete_container_clears:
  assumes "client_delete_container P ns cid timeout w = Some (Inr u, w')"
  shows "(\<exists>d r. containers_get P ns (as_str cid) d = (r, daemon w') \<and> record_missing r)
    \<and> task_start_times w' (ns_key ns (as_str cid)) = None
    \<and> managed_tailers w' (ns_key ns (as_str cid)) = None
    \<and> (\<forall>h\<in>set (managed_handles w'). h_container_id h \<noteq> as_str cid)"
proof -
  let ?c = "as_str cid"
  from assms obtain v where del: "delete_container P ns ?c timeout w = Some (Inr u, v)"
    and w': "w' = stop_managed_tailer P ns ?c (stop_managed_forwards ?c v)"
    by (auto simp: client_delete_container_def)
  from del obtain w1 w2 w3 w4 m1 m2 m3 a1 a2 q
    where p1: "poll_until P (now P (daemon w1)) timeout (from_millis 100) m1 (task_deleted P ns ?c) w1 = Some (Inr a1, w2)"
      and p2: "poll_until P (now P (daemon w2)) timeout (from_millis 100) m2 (task_record_gone P ns ?c) w2 = Some (Inr a2, w3)"
      and w4: "p_lift (remove_container P ns ?c) w3 = Some (q, w4)"
      and p3: "poll_until P (now P (daemon w4)) timeout (from_millis 100) m3 (container_record_gone P ns ?c) w4 = Some (Inr u, v)"
    unfolding delete_container_def Let_def by (elim p_tryE p_bindE) (rule that, assumption+)
  from poll_until_outcome [OF p1] obtain v1 where "task_deleted P ns ?c v1 = (True, w2)" by auto
  then have "task_start_times w2 (ns_key ns ?c) = None"
    by (cases "fst (delete_task P ns ?c v1)") (auto simp: task_deleted_def dest: delete_task_start_times(2) split: prod.splits)
  then have "task_start_times w3 (ns_key ns ?c) = None" using poll_forgets [OF p2] phases_forget(1) by blast
  then have "task_start_times w4 (ns_key ns ?c) = None" using w4 remove_container_start_times [of P ns ?c w3] by simp
  then have st: "task_start_times v (ns_key ns ?c) = None" using poll_forgets [OF p3] phases_forget(2) by blast
  from poll_until_outcome [OF p3] obtain v3 where "container_record_gone P ns ?c v3 = (True, v)" by auto
  then obtain x where "inspect_container P ns ?c v3 = (Inl (ContainerNotFound x), v)"
    by (auto simp: container_record_gone_def split: prod.splits sum.splits error.splits)
  then obtain r where "containers_get P ns ?c (daemon v3) = (r, daemon v)" "record_missing r" by (rule inspect_not_found)
  moreover have "managed_tailers w' (ns_key ns ?c) = None"
    by (simp add: w' stop_managed_tailer_entry tailers.put_def)
  ultimately show ?thesis
    using st by (auto simp: w' stop_managed_tailer_def stop_managed_forwards_def Let_def split: option.splits)
qed

theorem delete_container_clears_witness:
  "\<exists>w'. client_delete_container rd_platform ''default'' (ContainerId ''c'') (from_secs 10) rd_started = Some (Inr (), w')
     \<and> task_start_times w' ''default/c'' = None"
proof -
  obtain w' where w': "client_delete_container rd_platform ''default'' (ContainerId ''c'') (from_secs 10) rd_started = Some (Inr (), w')"
    by (rule gone_delete [OF rd_gone, of rd_started "ContainerId ''c''"]) (simp_all add: rd_started_def rd_world_def)
  from delete_container_clears [OF this] w' show ?thesis by (simp add: ns_key_def)
qed





text \<open>
  C27: \<^verbatim>\<open>stop_container\<close> reports success on a paused task without stopping it: the task that only
  SIGKILL would end is still paused afterwards, because the last step is skipped for a task whose
  status is not \<^verbatim>\<open>Running\<close>.
\<close>

theorem stop_container_leaves_paused:
  assumes "clock_sleeps P" "clock_monotone P ns" "task_shows P ns c Paused paused"
    and "\<And>d t. paused d \<Longrightarrow> paused (sleep P t d)" "\<And>d. paused d \<Longrightarrow> paused (snd (tasks_kill P ns c [] SIGTERM True d))"
    and "paused (daemon w)"
  shows "\<exists>w'. stop_container P ns c timeout w = Some (Inr (), w') \<and> paused (daemon w')"
proof -
  let ?grace = "min (timeout div 2) (from_secs 5)"
  obtain r1 w1 where w1: "stop_task P ns c w = (r1, w1)" by fastforce
  then have "paused (daemon w1)" using assms(5) [OF assms(6)] kill_daemon(1) [of P ns c w] by simp
  moreover have "paused (daemon (snd (stop_observed P ns c v)))" if "paused (daemon v)" for v
    using that by (auto elim: task_shows_observed [OF assms(3)])
  ultimately obtain r2 w2 where w2: "wait_for_task_stop P ns c ?grace w1 = Some (r2, w2)" "paused (daemon w2)"
    by (rule wait_for_task_stop_keeps [OF assms(1,2), where I = paused]) (use assms(4) in blast)+
  obtain w3 where "is_task_running P ns c w2 = (False, w3)" "paused (daemon w3)"
    using w2(2) by (auto elim: task_shows_running [OF assms(3)])
  with w1 w2 show ?thesis by (simp add: stop_container_def Let_def)
qed

theorem stop_container_leaves_paused_witness:
  "\<exists>w'. stop_container rd_platform ''default'' ''c'' (from_secs 10) (rd_world (rd_with_task 4)) = Some (Inr (), w')
     \<and> rd_task_is 4 (daemon w')"
proof (rule stop_container_leaves_paused [OF rd_clock_sleeps rd_clock_monotone])
  show "task_shows rd_platform ''default'' ''c'' Paused (rd_task_is 4)" by (simp add: rd_shows)
  show "rd_task_is 4 (sleep rd_platform t d)" if "rd_task_is 4 d" for t d
    using that by (simp add: rd_sleeps)
  show "rd_task_is 4 (snd (tasks_kill rd_platform ''default'' ''c'' [] SIGTERM True d))" if "rd_task_is 4 d" for d
    by (rule rd_frozen [OF that])
  show "rd_task_is 4 (daemon (rd_world (rd_with_task 4)))" by (simp add: rd_task_is_def rd_world_def rd_with_task_def)
qed





end
