(* ===== verification/Snapshot.thy ===== *)
theory Snapshot
  imports Task
begin

text \<open>
  Named snapshots of a container's root file system: src/src/snapshot.rs and the helpers of
  src/src/snapshot_util.rs that it shares with cloning. A time that exceeds the range of
  \<^verbatim>\<open>SystemTime\<close>, on which the source panics, is not modelled; a \<^verbatim>\<open>SystemTime\<close> is a number of nanoseconds
  since the epoch.
\<close>

section \<open>Helpers\<close>

definition fetch_container_record :: "'d platform \<Rightarrow> string \<Rightarrow> string \<Rightarrow> ('d, container_msg) op" where
  "fetch_container_record P ns container_id =
     bind (call (containers_get P ns container_id) (not_found_or (ContainerNotFound container_id) ''get_container''))
       (\<lambda>resp. from_result (ok_or resp (ContainerNotFound container_id)))"

definition network_from_labels :: "labels \<Rightarrow> network_mode" where
  "network_from_labels labels = (if map_of labels NETWORK_MODE_LABEL = Some ''host'' then Host else Bridge)"

definition is_managed_label :: "string \<Rightarrow> bool" where
  "is_managed_label key \<longleftrightarrow> key = NETWORK_MODE_LABEL \<or> key = BRIDGE_IP_LABEL \<or> strip_prefix PORT_BINDING_LABEL_PREFIX key \<noteq> None"

section \<open>Model\<close>

definition IMAGE_LABEL :: string where "IMAGE_LABEL = ''containerd-manager.snapshot.image''"
definition MANAGED_LABEL :: string where "MANAGED_LABEL = ''containerd-manager.snapshot.managed''"
definition DESCRIPTION_LABEL :: string where "DESCRIPTION_LABEL = ''containerd-manager.snapshot.description''"

lemmas snapshot_labels_defs = IMAGE_LABEL_def MANAGED_LABEL_def DESCRIPTION_LABEL_def

record snapshot_opts =
  so_restart_src :: bool
  so_description :: "string option"

record restore_opts =
  ro_network :: "network_mode option"
  ro_port_bindings :: "u16 list"
  ro_env :: labels
  ro_labels :: labels

definition default_snapshot :: snapshot_opts where
  "default_snapshot = \<lparr>so_restart_src = False, so_description = None\<rparr>"

definition default_restore :: restore_opts where
  "default_restore = \<lparr>ro_network = None, ro_port_bindings = [], ro_env = [], ro_labels = []\<rparr>"

definition restore_opt_env :: "string \<Rightarrow> string \<Rightarrow> restore_opts \<Rightarrow> restore_opts" where
  "restore_opt_env key value opts = opts\<lparr>ro_env := hm_insert key value (ro_env opts)\<rparr>"

definition restore_opt_label :: "string \<Rightarrow> string \<Rightarrow> restore_opts \<Rightarrow> restore_opts" where
  "restore_opt_label key value opts = opts\<lparr>ro_labels := hm_insert key value (ro_labels opts)\<rparr>"

record reset_opts =
  re_restart :: bool

definition default_reset :: reset_opts where
  "default_reset = \<lparr>re_restart = False\<rparr>"

record snapshot_info =
  si_name :: string
  si_image :: "string option"
  si_description :: "string option"
  si_created_at :: "system_time option"
  si_parent :: string

definition timestamp_to_systemtime :: "int \<times> int \<Rightarrow> system_time option" where
  "timestamp_to_systemtime ts = (case ts of (seconds, nanos) \<Rightarrow>
     if 0 \<le> seconds \<and> 0 \<le> nanos then Some (seconds * 10 ^ 9 + nanos) else None)"

definition stat_managed_snapshot :: "'d platform \<Rightarrow> string \<Rightarrow> string \<Rightarrow> string \<Rightarrow> ('d, string) op" where
  "stat_managed_snapshot P ns snapshotter name =
     bind (call (snapshots_stat P ns snapshotter name) (not_found_or (SnapshotNotFound name) ''snapshot_stat'')) (\<lambda>resp.
     bind (from_result (ok_or resp (SnapshotNotFound name))) (\<lambda>info.
       if map_of (sm_labels info) MANAGED_LABEL \<noteq> Some ''1'' then fail (SnapshotNotManaged name)
       else from_result (ok_or (map_of (sm_labels info) IMAGE_LABEL)
              (InvalidArgument (''managed snapshot '' @ quoted name @ '' missing required '' @ IMAGE_LABEL @ '' label'')))))"

text \<open>Whether the task of a container runs, and stopping it before its layer is committed.\<close>

definition was_running :: "container_info \<Rightarrow> bool" where
  "was_running info = (case ci_task info of None \<Rightarrow> False | Some t \<Rightarrow> ti_status t = Running)"

definition quiesce :: "'d platform \<Rightarrow> string \<Rightarrow> string \<Rightarrow> bool \<Rightarrow> ('d, unit) prog" where
  "quiesce P ns src running =
     (if running
      then p_bind (stop_container P ns src SNAPSHOT_OP_STOP_TIMEOUT) (\<lambda>_. retry_delete_task P ns src SNAPSHOT_OP_STOP_TIMEOUT)
      else p_lift (ret ()))"

definition snapshot_labels :: "string \<Rightarrow> string option \<Rightarrow> labels" where
  "snapshot_labels img description =
     (let l = hm_insert MANAGED_LABEL ''1'' (hm_insert IMAGE_LABEL img [])
      in case description of None \<Rightarrow> l | Some desc \<Rightarrow> hm_insert DESCRIPTION_LABEL desc l)"

text \<open>The part of \<^verbatim>\<open>snapshot_container\<close> after the source has been stopped.\<close>

definition freeze_layer :: "'d platform \<Rightarrow> string \<Rightarrow> container_id \<Rightarrow> string \<Rightarrow> snapshot_opts \<Rightarrow> bool \<Rightarrow> ('d, unit) op" where
  "freeze_layer P ns src name opts running =
     bind (fetch_container_record P ns (as_str src)) (\<lambda>record.
     call_raw (snapshots_commit P ns (cm_snapshotter record) name (cm_snapshot_key record)
                 (snapshot_labels (cm_image record) (so_description opts))) (\<lambda>r. case r of
        Inl e \<Rightarrow>
          (let mapped = already_exists_or (SnapshotAlreadyExists name) ''snapshot_commit'' e
           in if running \<and> so_restart_src opts
              then try_op (client_start_container P ns src) (\<lambda>_. fail mapped)
              else fail mapped)
      | Inr _ \<Rightarrow>
        call_raw (snapshots_prepare P ns (cm_snapshotter record) (cm_snapshot_key record) name []) (\<lambda>r. case r of
           Inl e \<Rightarrow> call_raw (snapshots_remove P ns (cm_snapshotter record) name)
                     (\<lambda>_. fail (into_crate_error e ''snapshot_reprepare_src''))
         | Inr _ \<Rightarrow>
           if running \<and> so_restart_src opts then try_op (client_start_container P ns src) (\<lambda>_. ret ())
           else ret ())))"

definition snapshot_container :: "'d platform \<Rightarrow> string \<Rightarrow> container_id \<Rightarrow> string \<Rightarrow> snapshot_opts \<Rightarrow> ('d, unit) prog" where
  "snapshot_container P ns src name opts =
     (if name = [] then p_lift (fail (InvalidArgument ''snapshot name must not be empty''))
      else p_bind (p_lift (inspect_container P ns (as_str src))) (\<lambda>src_info.
           p_bind (quiesce P ns (as_str src) (was_running src_info)) (\<lambda>_.
             p_lift (freeze_layer P ns src name opts (was_running src_info)))))"

definition restore_create_opts :: "restore_opts \<Rightarrow> string \<Rightarrow> create_opts" where
  "restore_create_opts opts key =
     default_opts\<lparr>co_network := (case ro_network opts of None \<Rightarrow> Bridge | Some m \<Rightarrow> m),
       co_from_existing_snapshot := Some key,
       co_env := hm_extend [] (ro_env opts), co_labels := hm_extend [] (ro_labels opts),
       co_port_bindings := map (\<lambda>cp. (0, cp)) (ro_port_bindings opts)\<rparr>"

text \<open>Restoring into a container whose identifier has been drawn.\<close>

definition restore_into :: "'d platform \<Rightarrow> string \<Rightarrow> string \<Rightarrow> string \<Rightarrow> restore_opts \<Rightarrow> string \<Rightarrow> string \<Rightarrow> ('d, container_id) op" where
  "restore_into P ns snapshot_name dst_name opts img dst_id =
     (let key = snapshot_key_for dst_id
      in bind (call (snapshots_prepare P ns DEFAULT_SNAPSHOTTER key snapshot_name [])
                (already_exists_or (ContainerAlreadyExists dst_name) ''restore_prepare_dst'')) (\<lambda>_.
         try_op (create_container_with_id P ns (ContainerId dst_id) dst_name img (restore_create_opts opts key)) (\<lambda>r.
           case r of
             Inr i \<Rightarrow> ret i
           | Inl e \<Rightarrow> call_raw (snapshots_remove P ns DEFAULT_SNAPSHOTTER key) (\<lambda>_. fail e))))"

definition restore_container :: "'d platform \<Rightarrow> string \<Rightarrow> string \<Rightarrow> string \<Rightarrow> restore_opts \<Rightarrow> ('d, container_id) op" where
  "restore_container P ns snapshot_name dst_name opts =
     (if snapshot_name = [] then fail (InvalidArgument ''snapshot name must not be empty'')
      else bind (stat_managed_snapshot P ns DEFAULT_SNAPSHOTTER snapshot_name) (\<lambda>img.
           with_daemon (uuid_v4 P) (restore_into P ns snapshot_name dst_name opts img)))"

text \<open>The five attempts of \<^verbatim>\<open>reset_to_snapshot\<close>, with a longer sleep after each failure, the last one included.\<close>

fun reset_prepare :: "'d platform \<Rightarrow> string \<Rightarrow> string \<Rightarrow> string \<Rightarrow> string \<Rightarrow> nat list \<Rightarrow> status option \<Rightarrow> ('d, unit) op" where
  "reset_prepare P ns snapshotter key parent [] last_err =
     (case last_err of None \<Rightarrow> ret () | Some e \<Rightarrow> fail (into_crate_error e ''reset_prepare_active''))"
| "reset_prepare P ns snapshotter key parent (attempt # rest) last_err =
     call_raw (snapshots_prepare P ns snapshotter key parent []) (\<lambda>r. case r of
        Inr _ \<Rightarrow> ret ()
      | Inl e \<Rightarrow> (\<lambda>w. reset_prepare P ns snapshotter key parent rest (Some e) (sleep_op P (from_millis (100 * (attempt + 1))) w)))"

definition reset_active :: "'d platform \<Rightarrow> string \<Rightarrow> string \<Rightarrow> string \<Rightarrow> string \<Rightarrow> ('d, unit) op" where
  "reset_active P ns snapshotter key snapshot_name =
     call_raw (snapshots_remove P ns snapshotter key) (\<lambda>r. case r of
        Inl e \<Rightarrow> if status_code e \<noteq> Code_NotFound then fail (into_crate_error e ''reset_remove_active'')
                else reset_prepare P ns snapshotter key snapshot_name [0..<5] None
      | Inr _ \<Rightarrow> reset_prepare P ns snapshotter key snapshot_name [0..<5] None)"

definition reset_to_snapshot :: "'d platform \<Rightarrow> string \<Rightarrow> container_id \<Rightarrow> string \<Rightarrow> reset_opts \<Rightarrow> ('d, unit) prog" where
  "reset_to_snapshot P ns container_id snapshot_name opts =
     (if snapshot_name = [] then p_lift (fail (InvalidArgument ''snapshot name must not be empty''))
      else p_bind (p_lift (fetch_container_record P ns (as_str container_id))) (\<lambda>record.
           p_bind (p_lift (stat_managed_snapshot P ns (cm_snapshotter record) snapshot_name)) (\<lambda>snapshot_image.
           if snapshot_image \<noteq> cm_image record then p_lift (fail (InvalidArgument (''snapshot image '' @ quoted snapshot_image @ '' does not match container image '' @ quoted (cm_image record))))
           else p_try (stop_container P ns (as_str container_id) SNAPSHOT_OP_STOP_TIMEOUT) (\<lambda>_.
                p_bind (retry_delete_task P ns (as_str container_id) SNAPSHOT_OP_STOP_TIMEOUT) (\<lambda>_.
                p_bind (p_lift (\<lambda>w. (Inr (), stop_managed_forwards (as_str container_id) w))) (\<lambda>_.
                p_bind (p_lift (reset_active P ns (cm_snapshotter record) (cm_snapshot_key record) snapshot_name)) (\<lambda>_.
                  if re_restart opts then p_bind (p_lift (client_start_container P ns container_id)) (\<lambda>_. p_lift (ret ()))
                  else p_lift (ret ()))))))))"

definition snapshot_info_of :: "snapshot_msg \<Rightarrow> snapshot_info" where
  "snapshot_info_of info =
     \<lparr>si_name = sm_name info, si_image = map_of (sm_labels info) IMAGE_LABEL,
      si_description = map_of (sm_labels info) DESCRIPTION_LABEL,
      si_created_at = Option.bind (sm_created_at info) timestamp_to_systemtime, si_parent = sm_parent info\<rparr>"

fun collect_snapshots :: "(status + snapshot_msg list) list \<Rightarrow> snapshot_info list \<Rightarrow> snapshot_info list result" where
  "collect_snapshots [] out = Inr out"
| "collect_snapshots (Inl e # _) out = Inl (into_crate_error e ''snapshot_list_stream'')"
| "collect_snapshots (Inr infos # msgs) out = collect_snapshots msgs (out @ map snapshot_info_of infos)"

definition list_snapshots :: "'d platform \<Rightarrow> string \<Rightarrow> ('d, snapshot_info list) op" where
  "list_snapshots P ns =
     bind (call (snapshots_list P ns DEFAULT_SNAPSHOTTER [''labels.'' @ [CHR 0x22] @ MANAGED_LABEL @ [CHR 0x22] @ ''==1''])
            (\<lambda>s. into_crate_error s ''snapshot_list''))
       (\<lambda>stream. from_result (collect_snapshots stream []))"

definition delete_snapshot :: "'d platform \<Rightarrow> string \<Rightarrow> string \<Rightarrow> ('d, unit) op" where
  "delete_snapshot P ns name =
     bind (stat_managed_snapshot P ns DEFAULT_SNAPSHOTTER name) (\<lambda>_.
       call (snapshots_remove P ns DEFAULT_SNAPSHOTTER name) (not_found_or (SnapshotNotFound name) ''snapshot_delete''))"

section \<open>What creation and the look-ups keep\<close>

lemma keeps_commit_adopted:
  "rpc_keeps I (containers_create P ns c) \<Longrightarrow> keeps I (commit_record P ns name cid c False)"
  unfolding commit_record_def by (auto intro!: keeps_intros simp: Let_def split: sum.split)

lemma keeps_create_adopted:
  assumes "snapshot_contract P ns key_of" "co_from_existing_snapshot opts = Some key"
  shows "keeps (\<lambda>d. key_of k d = b) (create_container_with_id P ns cid name img opts)"
proof -
  have "prepare_rootfs P ns c name chain opts = ret (key, False)" for c chain
    using assms(2) by (simp add: prepare_rootfs_def)
  then show ?thesis
    unfolding create_container_with_id_def
    by (simp only: bind_ret prod.case)
      (intro keeps_intros keeps_commit_adopted contract_keeps [OF assms(1)])
qed

lemma keeps_stat_managed:
  assumes "snapshot_contract P ns key_of"
  shows "keeps (\<lambda>d. key_of k d = b) (stat_managed_snapshot P ns s n)"
  unfolding stat_managed_snapshot_def by (intro keeps_intros contract_keeps [OF assms])

lemma keeps_fetch_record:
  assumes "snapshot_contract P ns key_of"
  shows "keeps (\<lambda>d. key_of k d = b) (fetch_container_record P ns c)"
  unfolding fetch_container_record_def by (intro keeps_intros contract_keeps [OF assms])

text \<open>
  A container made on a snapshot that was prepared for it, with the removal of the snapshot when
  that fails: what restoring and cloning share.
\<close>

lemma adopt_or_remove:
  assumes "snapshot_contract P ns key_of" "co_from_existing_snapshot opts = Some key" "key_of key (daemon w) = Leaf"
    and "create_container_with_id P ns cid name img opts w = (Inl e, v)"
    and "snapshots_remove P ns DEFAULT_SNAPSHOTTER key (daemon v) = (r, d)"
  shows "key_of key d = Absent"
  using keepsD [OF keeps_create_adopted [OF assms(1,2)] assms(4)] assms(3) by (intro contract_remove [OF assms(1,5)]) blast

lemma restore_into_failed:
  assumes "snapshot_contract P ns key_of" "restore_into P ns snapshot_name dst_name opts img dst_id w = (Inl e, w')"
    and "key_of k (daemon w) = Absent" "k \<noteq> snapshot_name"
  shows "key_of k (daemon w') = Absent"
proof (cases "snapshot_key_for dst_id = k")
  case False
  note keep = contract_absent [OF assms(1)] keeps_create_adopted [OF assms(1)]
  have "keeps (\<lambda>d. key_of k d = Absent) (restore_into P ns snapshot_name dst_name opts img dst_id)"
    using False assms(4) unfolding restore_into_def Let_def
    by (intro keeps_intros keep) (auto simp: restore_create_opts_def intro!: keeps_intros keep split: sum.split)
  from keepsD [OF this assms(2)] assms(3) show ?thesis by blast
next
  case True
  let ?opts = "restore_create_opts opts k"
  obtain r d where p: "snapshots_prepare P ns DEFAULT_SNAPSHOTTER k snapshot_name [] (daemon w) = (r, d)" by fastforce
  note prep = contract_prepare(1) [OF assms(1) p assms(3)]
  obtain q v where c: "create_container_with_id P ns (ContainerId dst_id) dst_name img ?opts (w\<lparr>daemon := d\<rparr>) = (q, v)" by fastforce
  obtain r' d' where rm: "snapshots_remove P ns DEFAULT_SNAPSHOTTER k (daemon v) = (r', d')" by fastforce
  show ?thesis
  proof (cases r)
    case (Inl s)
    with assms(2) True p prep show ?thesis by (auto simp: restore_into_def Let_def call_def rpc_call_def bind_def)
  next
    case r: (Inr u)
    with assms(2) True p c rm have q: "q = Inl e" "daemon w' = d'"
      by (auto simp: restore_into_def Let_def call_def rpc_call_def bind_def try_op_def call_raw_def split: sum.splits)
    have "key_of k d' = Absent"
      by (rule adopt_or_remove [OF assms(1) _ _ c [unfolded q(1)] rm]) (use prep r in \<open>simp_all add: restore_create_opts_def\<close>)
    with q show ?thesis by simp
  qed
qed

section \<open>Properties\<close>


definition base_daemon :: rd where
  "base_daemon = web_daemon\<lparr>rd_snapshots := [(''default/base'',
     \<lparr>sm_name = ''base'', sm_parent = [], sm_labels = snapshot_labels ''nginx'' None, sm_created_at = None\<rparr>)]\<rparr>"

lemma full_restore_fails: "isl (fst (restore_container full_platform ns name dst opts w))"
proof -
  have "isl (fst (try_op (create_container_with_id full_platform ns cid dst img o') (\<lambda>r.
      case r of Inr i \<Rightarrow> ret i | Inl e \<Rightarrow> call_raw f (\<lambda>_. fail e)) w))" for cid img o' f w
    using full_create_fails [of ns cid dst img o' w]
    by (auto simp: try_op_def call_raw_def split: prod.splits sum.split)
  then have "isl (fst (with_daemon g (restore_into full_platform ns name dst opts img) w))" for g img w
    by (auto simp: with_daemon_def restore_into_def Let_def intro!: bind_always_fails split: prod.split)
  then show ?thesis by (auto simp: restore_container_def intro: bind_always_fails)
qed


text \<open>
  What a snapshot is labelled with is read back: its labels pass the check that it is managed,
  which returns the image of the source, and a listing shows the same image and the description
  that was given.
\<close>

lemma snapshot_labels_roundtrip:
  assumes "snapshots_stat P ns s name (daemon w) = (Inr (Some info), d)" "sm_labels info = snapshot_labels img description"
  shows "stat_managed_snapshot P ns s name w = (Inr img, w\<lparr>daemon := d\<rparr>)
    \<and> si_image (snapshot_info_of info) = Some img \<and> si_description (snapshot_info_of info) = description"
proof -
  have "map_of (sm_labels info) MANAGED_LABEL = Some ''1''" "map_of (sm_labels info) IMAGE_LABEL = Some img"
    "map_of (sm_labels info) DESCRIPTION_LABEL = description"
    by (simp_all add: assms(2) snapshot_labels_def snapshot_labels_defs Let_def del: map_of_eq_Some_iff split: option.split)
  with assms(1) show ?thesis
    by (simp add: stat_managed_snapshot_def snapshot_info_of_def call_def rpc_call_def bind_def)
qed

text \<open>
  C31: a snapshot that the crate did not make (its managed label is not 1) is never touched:
  deleting it, restoring from it and resetting a container to it all fail with
  \<^verbatim>\<open>SnapshotNotManaged\<close>, and the last call made is the one that looked at the snapshot.
\<close>

theorem unmanaged_snapshots_untouched:
  assumes "name \<noteq> []" "snapshots_stat P ns DEFAULT_SNAPSHOTTER name (daemon w) = (Inr (Some info), d)"
    and "map_of (sm_labels info) MANAGED_LABEL \<noteq> Some ''1''"
    and "containers_get P ns (as_str cid) d0 = (Inr (Some m), daemon w)" "cm_snapshotter m = DEFAULT_SNAPSHOTTER"
  shows "delete_snapshot P ns name w = (Inl (SnapshotNotManaged name), w\<lparr>daemon := d\<rparr>)
    \<and> restore_container P ns name dst_name opts w = (Inl (SnapshotNotManaged name), w\<lparr>daemon := d\<rparr>)
    \<and> reset_to_snapshot P ns cid name reset (w\<lparr>daemon := d0\<rparr>) = Some (Inl (SnapshotNotManaged name), w\<lparr>daemon := d\<rparr>)"
proof -
  have st: "stat_managed_snapshot P ns DEFAULT_SNAPSHOTTER name w = (Inl (SnapshotNotManaged name), w\<lparr>daemon := d\<rparr>)"
    using assms(2,3) by (simp add: stat_managed_snapshot_def call_def rpc_call_def bind_def)
  have "fetch_container_record P ns (as_str cid) (w\<lparr>daemon := d0\<rparr>) = (Inr m, w)"
    using assms(4) by (simp add: fetch_container_record_def call_def rpc_call_def bind_def)
  with st assms(1,5) show ?thesis
    by (simp add: delete_snapshot_def restore_container_def reset_to_snapshot_def)
qed

theorem unmanaged_snapshots_untouched_witness:
  "delete_snapshot rd_platform ''default'' ''layer'' (rd_world ((rd_with_task 3)\<lparr>rd_snapshots := [(''default/layer'',
       \<lparr>sm_name = ''layer'', sm_parent = [], sm_labels = [], sm_created_at = None\<rparr>)]\<rparr>))
   = (Inl (SnapshotNotManaged ''layer''), rd_world ((rd_with_task 3)\<lparr>rd_snapshots := [(''default/layer'',
       \<lparr>sm_name = ''layer'', sm_parent = [], sm_labels = [], sm_created_at = None\<rparr>)]\<rparr>))"
proof -
  let ?info = "\<lparr>sm_name = ''layer'', sm_parent = [], sm_labels = [], sm_created_at = None\<rparr>"
  let ?d = "(rd_with_task 3)\<lparr>rd_snapshots := [(''default/layer'', ?info)]\<rparr>"
  have s: "snapshots_stat rd_platform ''default'' DEFAULT_SNAPSHOTTER ''layer'' (daemon (rd_world ?d)) = (Inr (Some ?info), ?d)"
    by (simp add: rd_calls rd_world_def rd_key_def)
  have g: "containers_get rd_platform ''default'' (as_str (ContainerId ''c'')) ?d
      = (Inr (Some (snd (hd (rd_containers ?d)))), daemon (rd_world ?d))"
    by (simp add: rd_calls rd_world_def rd_key_def rd_with_task_def)
  show ?thesis
    using unmanaged_snapshots_untouched [OF _ s _ g] by (simp add: rd_world_def rd_with_task_def DEFAULT_SNAPSHOTTER_def)
qed

text \<open>
  C32: when the new active layer of a snapshotted container cannot be prepared, the rollback removes
  the snapshot that was just committed: afterwards neither the container's key nor the snapshot
  exists, and with them the only copy of the container's data is gone.
\<close>

theorem failed_reprepare_destroys_layer:
  assumes "snapshot_contract P ns key_of" "containers_get P ns (as_str src) (daemon w) = (Inr (Some m), d0)"
    and "cm_snapshotter m = DEFAULT_SNAPSHOTTER" "key_of (cm_snapshot_key m) d0 = Leaf" "key_of name d0 = Absent"
    and "snapshots_commit P ns DEFAULT_SNAPSHOTTER name (cm_snapshot_key m) (snapshot_labels (cm_image m) (so_description opts)) d0 = (Inr u, d1)"
    and "snapshots_prepare P ns DEFAULT_SNAPSHOTTER (cm_snapshot_key m) name [] d1 = (Inl e, d2)"
  shows "\<exists>w'. freeze_layer P ns src name opts running w = (Inl (into_crate_error e ''snapshot_reprepare_src''), w')
    \<and> key_of (cm_snapshot_key m) (daemon w') = Absent \<and> key_of name (daemon w') = Absent"
proof -
  obtain r d3 where r: "snapshots_remove P ns DEFAULT_SNAPSHOTTER name d2 = (r, d3)" by fastforce
  have k1: "key_of name d1 = Leaf" "key_of (cm_snapshot_key m) d1 = Absent"
    using contract_commit [OF assms(1,6,4,5)] by simp_all
  then have "key_of name d2 = Leaf" "key_of (cm_snapshot_key m) d2 = Absent"
    using contract_prepare [OF assms(1,7)] by simp_all
  then have "key_of name d3 = Absent" "key_of (cm_snapshot_key m) d3 = Absent"
    using contract_remove [OF assms(1) r] rpc_keepsD [OF contract_absent(2) [OF assms(1)] r] by blast+
  moreover have "freeze_layer P ns src name opts running w = (Inl (into_crate_error e ''snapshot_reprepare_src''), w\<lparr>daemon := d3\<rparr>)"
    using assms(2,3,6,7) r
    by (simp add: freeze_layer_def fetch_container_record_def call_def call_raw_def rpc_call_def bind_def)
  ultimately show ?thesis by simp
qed

definition refusing_platform :: "rd platform" where
  "refusing_platform = rd_platform\<lparr>snapshots_prepare := (\<lambda>_ _ _ _ _ d. rd_err Code_Unavailable d)\<rparr>"

lemma refusing_snapshot_contract: "snapshot_contract refusing_platform ns (rd_key_of ns)"
  using rd_snapshot_contract [of ns] unfolding snapshot_contract_def refusing_platform_def
  by (simp add: rpc_keeps_def rd_err_def split: prod.splits)

theorem failed_reprepare_destroys_layer_witness:
  "rd_key_of ''default'' ''c-snapshot'' (daemon (snd (freeze_layer refusing_platform ''default'' (ContainerId ''c'') ''base''
     default_snapshot False (rd_world rd_ready)))) = Absent"
proof -
  let ?m = "snd (hd (rd_containers rd_ready))"
  let ?c = "snapshots_commit refusing_platform ''default'' DEFAULT_SNAPSHOTTER ''base'' (cm_snapshot_key ?m)
    (snapshot_labels (cm_image ?m) (so_description default_snapshot)) rd_ready"
  note defs = refusing_platform_def rd_calls rd_ready_def rd_with_task_def rd_init_def rd_world_def rd_key_def rd_key_of_def rd_err_def
  have m: "containers_get refusing_platform ''default'' (as_str (ContainerId ''c'')) (daemon (rd_world rd_ready)) = (Inr (Some ?m), rd_ready)"
    "cm_snapshotter ?m = DEFAULT_SNAPSHOTTER" "cm_snapshot_key ?m = ''c-snapshot''"
    by (simp_all add: defs DEFAULT_SNAPSHOTTER_def)
  have k: "rd_key_of ''default'' (cm_snapshot_key ?m) rd_ready = Leaf" "rd_key_of ''default'' ''base'' rd_ready = Absent"
    by (simp_all add: defs)
  have c: "?c = (Inr (), snd ?c)" by (simp add: defs)
  have p: "snapshots_prepare refusing_platform ''default'' DEFAULT_SNAPSHOTTER (cm_snapshot_key ?m) ''base'' [] (snd ?c)
      = (Inl \<lparr>status_code = Code_Unavailable, status_message = []\<rparr>, snd ?c)"
    by (simp add: refusing_platform_def rd_err_def)
  from failed_reprepare_destroys_layer [OF refusing_snapshot_contract m(1,2) k c p, of False] show ?thesis
    by (auto simp: m(3))
qed

section \<open>Termination\<close>

lemma keeps_start_managed_tailer: "keeps I (start_managed_tailer P ns c)"
  by (auto simp: keeps_def start_managed_tailer_def Let_def split: sum.split option.split)

lemma keeps_start_container: "calls_keep P ns A I \<Longrightarrow> Task_Made (as_str cid) \<in> A \<Longrightarrow> keeps I (client_start_container P ns cid)"
  unfolding client_start_container_def start_container_def
  by (intro keeps_intros keeps_get_container keeps_start_managed_tailer calls_keepD)
    (auto intro!: keeps_intros calls_keepD keeps_fun simp: build_create_task_request_def)

lemma keeps_look_ups:
  "calls_keep P ns A I \<Longrightarrow> keeps I (stat_managed_snapshot P ns s n)" "calls_keep P ns A I \<Longrightarrow> keeps I (fetch_container_record P ns c)"
  unfolding stat_managed_snapshot_def fetch_container_record_def by (intro keeps_intros calls_keepD; assumption)+

lemma fetched_layer:
  assumes "layers_in P ns A I c" "I (daemon w)" "fetch_container_record P ns c w = (Inr m, w')"
  shows "Layer_Lost (cm_snapshot_key m) \<in> A"
proof -
  obtain q d where q: "containers_get P ns c (daemon w) = (q, d)" by fastforce
  with assms(3) have "q = Inr (Some m)"
    by (cases q; cases "projr q") (auto simp: fetch_container_record_def call_def rpc_call_def bind_def)
  with assms(1,2) q show ?thesis by (auto simp: layers_in_def)
qed

lemma keeps_freeze:
  assumes "calls_keep P ns A I" "Task_Made (as_str src) \<in> A" "layers_in P ns A I (as_str src)" "Layer_Lost name \<in> A"
  shows "keeps I (freeze_layer P ns src name opts running)"
  unfolding freeze_layer_def
  by (rule keeps_bind_post [OF keeps_look_ups(2) [OF assms(1)] fetched_layer [OF assms(3)]])
    (auto intro!: keeps_intros keeps_start_container calls_keepD assms(1,2,4) simp: Let_def split: sum.split)

lemma keeps_reset_prepare:
  assumes "calls_keep P ns A I" "\<And>t d. I d \<Longrightarrow> I (sleep P t d)"
  shows "keeps I (reset_prepare P ns s k par attempts last_err)"
proof (induction attempts arbitrary: last_err)
  case Nil
  then show ?case by (auto intro: keeps_intros split: option.split)
next
  case (Cons a attempts)
  have "keeps I (\<lambda>w. reset_prepare P ns s k par attempts (Some e) (sleep_op P t w))" for e t
    using Cons.IH [of "Some e"] assms(2) by (auto simp: keeps_def sleep_op_def)
  then show ?case
    by (auto intro!: keeps_intros calls_keepD assms(1) split: sum.split)
qed

lemma keeps_reset_active:
  "calls_keep P ns A I \<Longrightarrow> (\<And>t d. I d \<Longrightarrow> I (sleep P t d)) \<Longrightarrow> Layer_Lost k \<in> A \<Longrightarrow> keeps I (reset_active P ns s k n)"
  unfolding reset_active_def by (auto intro!: keeps_intros calls_keepD keeps_reset_prepare split: sum.split)

lemma snapshot_steady:
  assumes "clock_sleeps P" "clock_monotone P ns"
  shows "steady P (client_start_container P ns cid)" "steady P (freeze_layer P ns src name opts running)"
    "steady P (reset_active P ns s k n)" "steady P (stat_managed_snapshot P ns s n)" "steady P (fetch_container_record P ns c)"
proof -
  have sl: "t \<le> now P d \<Longrightarrow> t \<le> now P (sleep P x d)" for t d x
    using assms(1) unfolding clock_sleeps_def by (meson add_leE order_trans)
  note c = clock_monotoneD [OF assms(2)]
  show "steady P (client_start_container P ns cid)" "steady P (freeze_layer P ns src name opts running)"
    "steady P (reset_active P ns s k n)" "steady P (stat_managed_snapshot P ns s n)" "steady P (fetch_container_record P ns c)"
    by (rule steadyI, (rule keeps_start_container keeps_freeze keeps_reset_active keeps_look_ups, rule c, ((rule UNIV_I layers_in_all subset_UNIV | erule sl)+)?))+
qed

lemma returns_quiesce [returns_intros]:
  "clock_sleeps P \<Longrightarrow> clock_monotone P ns \<Longrightarrow> returns P (quiesce P ns c running)"
  unfolding quiesce_def by (intro returns_intros) (simp_all add: steady_def)

lemma steady_simple: "steady P (ret x)" "steady P (fail e)" "steady P (\<lambda>w. (y, stop_managed_forwards c w))"
  by (simp_all add: steady_def stop_managed_forwards_def)

text \<open>Taking a snapshot and resetting to one come to an end whatever the daemon answers.\<close>

lemma returns_snapshot_container [returns_intros]:
  "clock_sleeps P \<Longrightarrow> clock_monotone P ns \<Longrightarrow> returns P (snapshot_container P ns src name opts)"
  unfolding snapshot_container_def by (intro returns_intros snapshot_steady task_steady steady_simple)

lemma returns_reset_to_snapshot [returns_intros]:
  "clock_sleeps P \<Longrightarrow> clock_monotone P ns \<Longrightarrow> returns P (reset_to_snapshot P ns src name restart)"
  unfolding reset_to_snapshot_def by (intro returns_intros snapshot_steady task_steady steady_simple)

lemma reset_prepare_time:
  assumes "\<And>t d. now P (sleep P t d) = now P d + t"
    and "\<And>d. now P (snd (snapshots_prepare P ns s k par [] d)) = now P d"
    and "reset_prepare P ns s k par attempts last_err w = (r, w')" "last_err \<noteq> None \<or> attempts \<noteq> []"
  shows "case r of
      Inr _ \<Rightarrow> now P (daemon w') \<le> now P (daemon w) + sum_list (map (\<lambda>a. from_millis (100 * (a + 1))) (butlast attempts))
    | Inl _ \<Rightarrow> now P (daemon w') = now P (daemon w) + sum_list (map (\<lambda>a. from_millis (100 * (a + 1))) attempts)"
  using assms(3,4)
proof (induction attempts arbitrary: last_err w)
  case Nil
  then show ?case by (auto split: option.splits)
next
  case (Cons a attempts)
  obtain q d where q: "snapshots_prepare P ns s k par [] (daemon w) = (q, d)" by fastforce
  have d: "now P d = now P (daemon w)" using assms(2) [of "daemon w"] q by simp
  show ?case
  proof (cases q)
    case (Inr u)
    with Cons.prems q have "r = Inr ()" "w' = w\<lparr>daemon := d\<rparr>" by (simp_all add: call_raw_def rpc_call_def)
    with d show ?thesis by simp
  next
    case (Inl e)
    let ?v = "sleep_op P (from_millis (100 * (a + 1))) (w\<lparr>daemon := d\<rparr>)"
    have v: "now P (daemon ?v) = now P (daemon w) + from_millis (100 * (a + 1))" by (simp add: sleep_op_def assms(1) d)
    have eq: "reset_prepare P ns s k par attempts (Some e) ?v = (r, w')"
      using Cons.prems q Inl by (simp add: call_raw_def rpc_call_def)
    note ih = Cons.IH [OF eq, simplified]
    show ?thesis
    proof (cases r)
      case (Inl x)
      with ih v show ?thesis by simp
    next
      case (Inr x)
      with eq have "attempts \<noteq> []" by (cases attempts) simp_all
      with Inr ih v show ?thesis by simp
    qed
  qed
qed

text \<open>
  Resetting a container tries to prepare its layer at most five times and waits at most a second
  and a half in all: it succeeds within one second of waiting, or gives up after exactly 1.5 seconds.
\<close>

lemma reset_prepare_bounded:
  assumes "\<And>t d. now P (sleep P t d) = now P d + t"
    and "\<And>d. now P (snd (snapshots_prepare P ns s k par [] d)) = now P d"
  shows "case reset_prepare P ns s k par [0..<5] None w of
      (Inr _, w') \<Rightarrow> now P (daemon w') \<le> now P (daemon w) + from_secs 1
    | (Inl _, w') \<Rightarrow> now P (daemon w') = now P (daemon w) + from_millis 1500"
proof -
  obtain r w' where r: "reset_prepare P ns s k par [0..<5] None w = (r, w')" by fastforce
  from reset_prepare_time [OF assms r] r show ?thesis
    by (cases r) (simp_all add: upt_rec duration_defs)
qed

end
