(* ===== verification/Clone.thy ===== *)
theory Clone
  imports Snapshot
begin

text \<open>
  Cloning a container by copy on write: src/src/clone.rs. The base snapshot is committed by the
  first clone of a source and reused by later ones; the clone itself is a container made on a
  snapshot prepared from that base.
\<close>

section \<open>Model\<close>

definition CLONE_BASE_SUFFIX :: string where "CLONE_BASE_SUFFIX = ''-clone-base''"

record clone_opts =
  cl_restart_src :: bool
  cl_inherit_src_ports :: bool
  cl_port_bindings :: "u16 list"
  cl_network :: "network_mode option"
  cl_extra_env :: labels
  cl_label_overrides :: labels

definition default_clone_opts :: clone_opts where
  "default_clone_opts = \<lparr>cl_restart_src = False, cl_inherit_src_ports = True, cl_port_bindings = [], cl_network = None,
     cl_extra_env = [], cl_label_overrides = []\<rparr>"

definition clone_opt_env :: "string \<Rightarrow> string \<Rightarrow> clone_opts \<Rightarrow> clone_opts" where
  "clone_opt_env key value opts = opts\<lparr>cl_extra_env := hm_insert key value (cl_extra_env opts)\<rparr>"

definition clone_opt_label :: "string \<Rightarrow> string \<Rightarrow> clone_opts \<Rightarrow> clone_opts" where
  "clone_opt_label key value opts = opts\<lparr>cl_label_overrides := hm_insert key value (cl_label_overrides opts)\<rparr>"

definition ensure_clone_base :: "'d platform \<Rightarrow> string \<Rightarrow> string \<Rightarrow> string \<Rightarrow> string \<Rightarrow> ('d, unit) op" where
  "ensure_clone_base P ns snapshotter src_active_key base_key =
     call_raw (snapshots_stat P ns snapshotter base_key) (\<lambda>r. case r of
        Inr _ \<Rightarrow> ret ()
      | Inl e \<Rightarrow>
        if status_code e \<noteq> Code_NotFound then fail (into_crate_error e ''clone_stat_base'')
        else call_raw (snapshots_commit P ns snapshotter base_key src_active_key []) (\<lambda>r. case r of
               Inl e \<Rightarrow> if status_code e = Code_AlreadyExists then ret () else fail (into_crate_error e ''clone_commit_src'')
             | Inr _ \<Rightarrow>
               call_raw (snapshots_prepare P ns snapshotter src_active_key base_key []) (\<lambda>r. case r of
                  Inr _ \<Rightarrow> ret ()
                | Inl e \<Rightarrow> if status_code e = Code_AlreadyExists then ret ()
                          else fail (into_crate_error e ''clone_reprepare_src''))))"

definition prepare_clone_snapshot :: "'d platform \<Rightarrow> string \<Rightarrow> string \<Rightarrow> string \<Rightarrow> string \<Rightarrow> string \<Rightarrow> ('d, unit) op" where
  "prepare_clone_snapshot P ns snapshotter dst_key parent_key dst_id =
     call (snapshots_prepare P ns snapshotter dst_key parent_key [])
       (already_exists_or (ContainerAlreadyExists dst_id) ''clone_prepare_dst'')"

definition remove_snapshot :: "'d platform \<Rightarrow> string \<Rightarrow> string \<Rightarrow> string \<Rightarrow> ('d, unit) op" where
  "remove_snapshot P ns snapshotter key =
     call (snapshots_remove P ns snapshotter key) (\<lambda>s. into_crate_error s ''clone_remove_dst_snapshot'')"

fun apply_overrides :: "labels \<Rightarrow> labels \<Rightarrow> labels result" where
  "apply_overrides labels [] = Inr labels"
| "apply_overrides labels ((k, v) # rest) =
     (if is_managed_label k then Inl (InvalidArgument (''label '' @ quoted k @ '' is managed by containerd-manager and cannot be overridden''))
      else apply_overrides (hm_insert k v labels) rest)"

definition clone_create_opts :: "container_info \<Rightarrow> string \<Rightarrow> clone_opts \<Rightarrow> create_opts result" where
  "clone_create_opts src_info dst_snapshot_key opts =
     (let network_mode = (case cl_network opts of Some m \<Rightarrow> m | None \<Rightarrow> network_from_labels (ci_labels src_info));
          container_ports = (if cl_inherit_src_ports opts then map snd (ci_port_forwards src_info) else cl_port_bindings opts);
          env = hm_extend (hm_extend [] (ci_env src_info)) (cl_extra_env opts)
      in result_bind (apply_overrides (hm_extend [] (filter (\<lambda>(k, _). \<not> is_managed_label k) (ci_labels src_info))) (cl_label_overrides opts))
           (\<lambda>labels. Inr (default_opts\<lparr>co_network := network_mode, co_from_existing_snapshot := Some dst_snapshot_key,
              co_env := env, co_labels := labels, co_port_bindings := map (\<lambda>cp. (0, cp)) container_ports\<rparr>)))"

definition create_clone_record ::
  "'d platform \<Rightarrow> string \<Rightarrow> container_id \<Rightarrow> string \<Rightarrow> container_info \<Rightarrow> string \<Rightarrow> clone_opts \<Rightarrow> ('d, unit) op" where
  "create_clone_record P ns dst_id dst_name src_info dst_snapshot_key opts =
     bind (from_result (clone_create_opts src_info dst_snapshot_key opts)) (\<lambda>create_opts.
     bind (create_container_with_id P ns dst_id dst_name (ci_image src_info) create_opts) (\<lambda>_. ret ()))"

text \<open>Cloning into a container whose identifier has been drawn.\<close>

definition clone_into ::
  "'d platform \<Rightarrow> string \<Rightarrow> container_id \<Rightarrow> string \<Rightarrow> container_info \<Rightarrow> clone_opts \<Rightarrow> container_msg \<Rightarrow> string \<Rightarrow> ('d, container_id) op" where
  "clone_into P ns src dst_name src_info opts record dst_id =
     (let snapshotter = cm_snapshotter record;
          base_key = as_str src @ CLONE_BASE_SUFFIX;
          dst_snapshot_key = snapshot_key_for dst_id
      in bind (ensure_clone_base P ns snapshotter (cm_snapshot_key record) base_key) (\<lambda>_.
         bind (prepare_clone_snapshot P ns snapshotter dst_snapshot_key base_key dst_name) (\<lambda>_.
         try_op (create_clone_record P ns (ContainerId dst_id) dst_name src_info dst_snapshot_key opts) (\<lambda>r. case r of
            Inl e \<Rightarrow> try_op (remove_snapshot P ns snapshotter dst_snapshot_key) (\<lambda>_. fail e)
          | Inr _ \<Rightarrow> ret (ContainerId dst_id)))))"

definition clone_inner ::
  "'d platform \<Rightarrow> string \<Rightarrow> container_id \<Rightarrow> string \<Rightarrow> container_info \<Rightarrow> clone_opts \<Rightarrow> ('d, container_id) op" where
  "clone_inner P ns src dst_name src_info opts =
     bind (fetch_container_record P ns (as_str src)) (\<lambda>record.
       with_daemon (uuid_v4 P) (clone_into P ns src dst_name src_info opts record))"

definition clone_container :: "'d platform \<Rightarrow> string \<Rightarrow> container_id \<Rightarrow> string \<Rightarrow> clone_opts \<Rightarrow> ('d, container_id) prog" where
  "clone_container P ns src dst_name opts =
     p_bind (p_lift (inspect_container P ns (as_str src))) (\<lambda>src_info.
     p_bind (quiesce P ns (as_str src) (was_running src_info)) (\<lambda>_.
     p_try (p_lift (clone_inner P ns src dst_name src_info opts)) (\<lambda>result.
       if was_running src_info \<and> cl_restart_src opts
       then p_try (p_lift (client_start_container P ns src)) (\<lambda>_. p_lift (from_result result))
       else p_lift (from_result result))))"

section \<open>Lemmas\<close>

lemma apply_overrides_managed:
  "\<exists>(k, v)\<in>set ovr. is_managed_label k \<Longrightarrow> \<exists>m. apply_overrides ls ovr = Inl (InvalidArgument m)"
  by (induction ls ovr rule: apply_overrides.induct) auto

lemma apply_overrides_free:
  "\<forall>(k, v)\<in>set ovr. \<not> is_managed_label k \<Longrightarrow> apply_overrides ls ovr = Inr (hm_extend ls ovr)"
  by (induction ls ovr rule: apply_overrides.induct) auto

lemma map_of_filter_keys: "map_of (filter (\<lambda>(k, _). p k) m) k = (if p k then map_of m k else None)"
  by (induction m) auto

lemma clone_create_opts_adopts: "clone_create_opts info key opts = Inr copts \<Longrightarrow> co_from_existing_snapshot copts = Some key"
  by (auto simp: clone_create_opts_def Let_def result_bind_Inr)

lemma keeps_ensure_base:
  assumes "snapshot_contract P ns key_of" "j \<noteq> key" "j \<noteq> base"
  shows "keeps (\<lambda>d. key_of j d = Absent) (ensure_clone_base P ns DEFAULT_SNAPSHOTTER key base)"
  unfolding ensure_clone_base_def using assms(2,3)
  by (auto intro!: keeps_intros contract_keeps [OF assms(1)] contract_absent [OF assms(1)] split: sum.split)

lemma keeps_clone_record:
  assumes "snapshot_contract P ns key_of"
  shows "keeps (\<lambda>d. key_of j d = b) (create_clone_record P ns cid name info key opts)"
proof (cases "clone_create_opts info key opts")
  case (Inl e)
  then show ?thesis by (simp add: create_clone_record_def keeps_def)
next
  case (Inr copts)
  have "keeps (\<lambda>d. key_of j d = b) (bind (create_container_with_id P ns cid name (ci_image info) copts) (\<lambda>_. ret ()))"
    by (intro keeps_intros keeps_create_adopted [OF assms clone_create_opts_adopts [OF Inr]])
  then show ?thesis by (simp add: create_clone_record_def keeps_def Inr)
qed

lemma clone_into_failed:
  assumes "snapshot_contract P ns key_of" "cm_snapshotter m = DEFAULT_SNAPSHOTTER"
    and "clone_into P ns src dst_name info opts m dst_id w = (Inl e, w')"
    and "key_of k (daemon w) = Absent" "k \<noteq> cm_snapshot_key m" "k \<noteq> as_str src @ CLONE_BASE_SUFFIX"
  shows "key_of k (daemon w') = Absent"
proof (cases "snapshot_key_for dst_id = k")
  case False
  note keep = contract_absent [OF assms(1)] keeps_ensure_base [OF assms(1)] keeps_clone_record [OF assms(1)]
  have "keeps (\<lambda>d. key_of k d = Absent) (clone_into P ns src dst_name info opts m dst_id)"
    using False assms(5,6) unfolding clone_into_def Let_def assms(2) prepare_clone_snapshot_def remove_snapshot_def
    by (intro keeps_intros keep) (auto intro!: keeps_intros keep split: sum.split)
  from keepsD [OF this assms(3)] assms(4) show ?thesis by blast
next
  case True
  let ?base = "as_str src @ CLONE_BASE_SUFFIX"
  obtain r1 w1 where e1: "ensure_clone_base P ns DEFAULT_SNAPSHOTTER (cm_snapshot_key m) ?base w = (r1, w1)" by fastforce
  have k1: "key_of k (daemon w1) = Absent"
    using keepsD [OF keeps_ensure_base [OF assms(1,5,6)] e1] assms(4) by blast
  obtain r2 d2 where p: "snapshots_prepare P ns DEFAULT_SNAPSHOTTER k ?base [] (daemon w1) = (r2, d2)" by fastforce
  note prep = contract_prepare(1) [OF assms(1) p k1]
  obtain r3 w3 where c: "create_clone_record P ns (ContainerId dst_id) dst_name info k opts (w1\<lparr>daemon := d2\<rparr>) = (r3, w3)" by fastforce
  obtain r4 d4 where rm: "snapshots_remove P ns DEFAULT_SNAPSHOTTER k (daemon w3) = (r4, d4)" by fastforce
  note steps = clone_into_def Let_def prepare_clone_snapshot_def remove_snapshot_def call_def rpc_call_def bind_def try_op_def
  show ?thesis
  proof (cases r1)
    case (Inl x)
    with assms(2,3) e1 k1 show ?thesis by (simp add: steps)
  next
    case r1: (Inr x)
    show ?thesis
    proof (cases r2)
      case (Inl y)
      with assms(2,3) True e1 r1 p prep show ?thesis by (auto simp: steps)
    next
      case (Inr y)
      have "key_of k (daemon w3) = Leaf" using keepsD [OF keeps_clone_record [OF assms(1)] c] prep Inr by simp
      from contract_remove [OF assms(1) rm this] assms(2,3) True e1 r1 Inr p c rm show ?thesis
        by (auto simp: steps split: sum.splits)
    qed
  qed
qed

text \<open>Creation and cloning do not turn the clock back either.\<close>

text \<open>The layer that a creation makes its record on, and may remove again when it has prepared it itself.\<close>

definition create_touches :: "string \<Rightarrow> create_opts \<Rightarrow> touch set" where
  "create_touches c opts = (case co_from_existing_snapshot opts of
     None \<Rightarrow> {Layer_Used (snapshot_key_for c), Layer_Lost (snapshot_key_for c)} | Some key \<Rightarrow> {Layer_Used key})"

lemma keeps_create:
  assumes "calls_keep P ns A I" "create_touches (as_str cid) opts \<subseteq> A"
  shows "keeps I (create_container_with_id P ns cid name img opts)"
proof -
  note k = calls_keepD [OF assms(1)]
  have rootfs: "keeps I (prepare_rootfs P ns c n chain opts)" for c n chain
    unfolding prepare_rootfs_def Let_def by (auto intro!: keeps_intros k split: option.split)
  have post: "Layer_Used (fst x) \<in> A \<and> (snd x \<longrightarrow> Layer_Lost (fst x) \<in> A)"
    if "prepare_rootfs P ns (as_str cid) name chain opts w = (Inr x, w')" for chain w x w'
    using that assms(2)
    by (auto simp: prepare_rootfs_def create_touches_def Let_def call_def rpc_call_def bind_def split: option.splits prod.splits sum.splits)
  have commit: "keeps I (commit_record P ns n c m b)"
    if "Layer_Used (cm_snapshot_key m) \<in> A \<and> (b \<longrightarrow> Layer_Lost (cm_snapshot_key m) \<in> A)" for n c m b
    using that unfolding commit_record_def Let_def by (auto intro!: keeps_intros k split: sum.split)
  have rest: "keeps I (bind (prepare_rootfs P ns (as_str cid) name chain opts) (\<lambda>(snapshot_key, we_prepared).
      bind (bridge_setup P ns opts) (\<lambda>bc. commit_record P ns name cid
        (container_record P ns (as_str cid) name img snapshot_key config opts bc) we_prepared)))" for chain config
    by (rule keeps_bind_post [OF rootfs post], assumption, clarsimp, intro keeps_intros k commit)
      (simp add: container_record_def Let_def)
  show ?thesis
    unfolding create_container_with_id_def by (rule rest keeps_intros k)+
qed

text \<open>The layers of containers whose identifiers are drawn during an operation.\<close>

definition fresh_layers :: "'d platform \<Rightarrow> touch set" where
  "fresh_layers P = (\<Union>u\<in>range (\<lambda>d. fst (uuid_v4 P d)). {Layer_Used (snapshot_key_for u), Layer_Lost (snapshot_key_for u)})"

lemma fresh_layersD:
  "fresh_layers P \<subseteq> A \<Longrightarrow> u \<in> range (\<lambda>d. fst (uuid_v4 P d)) \<Longrightarrow> Layer_Used (snapshot_key_for u) \<in> A \<and> Layer_Lost (snapshot_key_for u) \<in> A"
  unfolding fresh_layers_def by blast

lemma keeps_clone_inner:
  assumes "calls_keep P ns A I" "layers_in P ns A I (as_str src)" "fresh_layers P \<subseteq> A"
  shows "keeps I (clone_inner P ns src dst_name info opts)"
proof -
  note k = calls_keepD [OF assms(1)]
  have rec: "keeps I (create_clone_record P ns c n info key opts)" if "Layer_Used key \<in> A" for c n key
    unfolding create_clone_record_def
    by (rule keeps_bind_post [where Q = "\<lambda>copts. co_from_existing_snapshot copts = Some key"])
      (use that in \<open>auto intro!: keeps_intros keeps_create [OF assms(1)] simp: create_touches_def clone_create_opts_adopts from_result_def\<close>)
  have base: "keeps I (ensure_clone_base P ns s k b)" if "Layer_Lost k \<in> A" for s k b
    using that unfolding ensure_clone_base_def by (auto intro!: keeps_intros k split: sum.split)
  have "keeps I (clone_into P ns src dst_name info opts m u)"
    if "Layer_Lost (cm_snapshot_key m) \<in> A" "Layer_Used (snapshot_key_for u) \<in> A \<and> Layer_Lost (snapshot_key_for u) \<in> A" for m u
    using that unfolding clone_into_def Let_def prepare_clone_snapshot_def remove_snapshot_def
    by (intro keeps_intros k base rec) (auto intro!: keeps_intros k split: sum.split)
  moreover have "Layer_Used (snapshot_key_for (fst (uuid_v4 P d))) \<in> A \<and> Layer_Lost (snapshot_key_for (fst (uuid_v4 P d))) \<in> A" for d
    by (rule fresh_layersD [OF assms(3) rangeI])
  ultimately show ?thesis
    unfolding clone_inner_def
    by (intro keeps_bind_post [OF keeps_look_ups(2) [OF assms(1)] fetched_layer [OF assms(2)]] keeps_with_daemon_post k) auto
qed

lemma clone_steady: "clock_monotone P ns \<Longrightarrow> steady P (clone_inner P ns src dst_name info opts)"
  by (rule steadyI, rule keeps_clone_inner, rule clock_monotoneD) simp_all

section \<open>Properties\<close>


lemma full_clone_fails: "isl (fst (clone_inner full_platform ns src dst info opts w))"
proof -
  have "isl (fst (create_clone_record full_platform ns cid dst info key opts w))" for cid key w
    unfolding create_clone_record_def by (intro bind_always_fails bind_fails_first full_create_fails)
  then have "isl (fst (try_op (create_clone_record full_platform ns cid dst info key opts) (\<lambda>r. case r of
      Inl e \<Rightarrow> try_op f (\<lambda>_. fail e) | Inr _ \<Rightarrow> ret y) w))" for cid key f y w
    by (auto simp: try_op_def isl_def split: prod.splits sum.split) (metis Inl_Inr_False fst_conv)
  then have "isl (fst (clone_into full_platform ns src dst info opts m u w))" for m u w
    by (auto simp: clone_into_def Let_def intro!: bind_always_fails)
  then show ?thesis by (auto simp: clone_inner_def with_daemon_def intro!: bind_always_fails split: prod.split)
qed

definition clone_source :: container_info where
  "clone_source = \<lparr>ci_id = ContainerId ''c'', ci_name = ''c'', ci_image = ''i'', ci_labels = [], ci_env = [], ci_mounts = [],
     ci_task = None, ci_port_forwards = []\<rparr>"


text \<open>
  C34: a clone inherits from its source: its environment is the source's with the additions on top,
  its labels are the source's without the managed ones, with the overrides on top, its container
  ports are the source's; an override of a managed label is refused.
\<close>

theorem clone_inherits:
  "if \<exists>(k, v)\<in>set (cl_label_overrides opts). is_managed_label k
   then \<exists>m. clone_create_opts info key opts = Inl (InvalidArgument m)
   else \<exists>copts. clone_create_opts info key opts = Inr copts
     \<and> co_from_existing_snapshot copts = Some key
     \<and> map_of (co_env copts) = map_of (rev (ci_env info)) ++ map_of (rev (cl_extra_env opts))
     \<and> (\<forall>k. map_of (co_labels copts) k =
          (case map_of (rev (cl_label_overrides opts)) k of
             Some v \<Rightarrow> Some v | None \<Rightarrow> if is_managed_label k then None else map_of (rev (ci_labels info)) k))
     \<and> map snd (co_port_bindings copts) = (if cl_inherit_src_ports opts then map snd (ci_port_forwards info) else cl_port_bindings opts)"
proof (cases "\<exists>(k, v)\<in>set (cl_label_overrides opts). is_managed_label k")
  case True
  then obtain m where "apply_overrides (hm_extend [] (filter (\<lambda>(k, _). \<not> is_managed_label k) (ci_labels info))) (cl_label_overrides opts)
      = Inl (InvalidArgument m)" using apply_overrides_managed by blast
  with True show ?thesis by (simp add: clone_create_opts_def Let_def)
next
  case False
  let ?ls = "hm_extend [] (filter (\<lambda>(k, _). \<not> is_managed_label k) (ci_labels info))"
  have "apply_overrides ?ls (cl_label_overrides opts) = Inr (hm_extend ?ls (cl_label_overrides opts))"
    by (rule apply_overrides_free) (use False in auto)
  with False show ?thesis
    by (auto simp: clone_create_opts_def Let_def map_of_hm_extend map_of_filter_keys rev_filter map_add_def comp_def
        simp del: map_of_eq_Some_iff split: option.split)
qed

text \<open>
  The network mode a clone inherits is not always the source's: read back from the labels of the
  source's record, an isolated container is cloned into a bridged one.
\<close>

lemma clone_network_mode:
  "network_from_labels (container_labels ns name config opts bc) = (if co_network opts = Isolated then Bridge else co_network opts)"
  by (cases "co_network opts") (simp_all add: network_from_labels_def container_labels_lookup(2))

text \<open>
  C35: when the source's layer cannot be prepared again after the base was committed, the clone
  fails and the source is left without its snapshot; the next clone finds the base, reports
  success for this step and still does not repair the source.
\<close>

theorem failed_clone_base_strands_source:
  assumes "snapshot_contract P ns key_of" "key_of key (daemon w) = Leaf" "key_of base (daemon w) = Absent"
    and "snapshots_stat P ns DEFAULT_SNAPSHOTTER base (daemon w) = (Inl s, d0)" "status_code s = Code_NotFound"
    and "snapshots_commit P ns DEFAULT_SNAPSHOTTER base key [] d0 = (Inr u, d1)"
    and "snapshots_prepare P ns DEFAULT_SNAPSHOTTER key base [] d1 = (Inl e, d2)" "status_code e \<noteq> Code_AlreadyExists"
    and "snapshots_stat P ns DEFAULT_SNAPSHOTTER base d2 = (Inr info, d3)"
  shows "ensure_clone_base P ns DEFAULT_SNAPSHOTTER key base w = (Inl (into_crate_error e ''clone_reprepare_src''), w\<lparr>daemon := d2\<rparr>)
    \<and> ensure_clone_base P ns DEFAULT_SNAPSHOTTER key base (w\<lparr>daemon := d2\<rparr>) = (Inr (), w\<lparr>daemon := d3\<rparr>)
    \<and> key_of key d3 = Absent"
proof -
  have "key_of key d0 = Leaf" "key_of base d0 = Absent"
    using rpc_keepsD [OF contract_keeps(8) [OF assms(1)] assms(4)] assms(2,3) by blast+
  then have "key_of key d1 = Absent" using contract_commit(2) [OF assms(1,6)] by simp
  then have "key_of key d2 = Absent" using contract_prepare(1) [OF assms(1,7)] by simp
  then have "key_of key d3 = Absent" using rpc_keepsD [OF contract_keeps(8) [OF assms(1)] assms(9)] by blast
  with assms(4-9) show ?thesis by (simp add: ensure_clone_base_def call_raw_def rpc_call_def)
qed

theorem failed_clone_base_strands_source_witness:
  "rd_key_of ''default'' ''c-snapshot'' (daemon (snd (ensure_clone_base refusing_platform ''default'' DEFAULT_SNAPSHOTTER
     ''c-snapshot'' ''c-clone-base'' (snd (ensure_clone_base refusing_platform ''default'' DEFAULT_SNAPSHOTTER
     ''c-snapshot'' ''c-clone-base'' (rd_world rd_ready)))))) = Absent"
proof -
  note defs = refusing_platform_def rd_calls rd_ready_def rd_with_task_def rd_init_def rd_world_def rd_key_def rd_key_of_def rd_err_def
  let ?P = refusing_platform and ?ns = "''default''" and ?k = "''c-snapshot''" and ?b = "''c-clone-base''"
  let ?c = "snapshots_commit ?P ?ns DEFAULT_SNAPSHOTTER ?b ?k [] rd_ready"
  have k: "rd_key_of ?ns ?k (daemon (rd_world rd_ready)) = Leaf" "rd_key_of ?ns ?b (daemon (rd_world rd_ready)) = Absent"
    by (simp_all add: defs)
  have s: "snapshots_stat ?P ?ns DEFAULT_SNAPSHOTTER ?b (daemon (rd_world rd_ready))
      = (Inl \<lparr>status_code = Code_NotFound, status_message = []\<rparr>, rd_ready)" by (simp add: defs)
  have c: "?c = (Inr (), snd ?c)" by (simp add: defs)
  have p: "snapshots_prepare ?P ?ns DEFAULT_SNAPSHOTTER ?k ?b [] (snd ?c)
      = (Inl \<lparr>status_code = Code_Unavailable, status_message = []\<rparr>, snd ?c)" by (simp add: refusing_platform_def rd_err_def)
  obtain info where i: "snapshots_stat ?P ?ns DEFAULT_SNAPSHOTTER ?b (snd ?c) = (Inr info, snd ?c)"
    by (simp add: defs)
  from failed_clone_base_strands_source [OF refusing_snapshot_contract k s _ c p _ i] show ?thesis by simp
qed

text \<open>Cloning comes to an end, and what it returns is the outcome of the clone itself, whether or not the source restarts.\<close>

lemma returns_clone_container [returns_intros]:
  assumes "clock_sleeps P" "clock_monotone P ns"
  shows "returns P (clone_container P ns src dst_name opts)"
  unfolding clone_container_def
  by (intro returns_intros snapshot_steady task_steady clone_steady assms) (simp_all add: steady_def)

lemma clone_container_result:
  assumes "clone_container P ns src dst_name opts w = Some (Inr cid, w')"
  shows "\<exists>info v v'. clone_inner P ns src dst_name info opts v = (Inr cid, v')"
  using assms unfolding clone_container_def by (auto elim!: p_bindE p_tryE split: if_splits) blast+

end
