(* ===== verification/Image.thy ===== *)
theory Image
  imports Container
begin

text \<open>Pulling an image through containerd's transfer service: src/src/image.rs.\<close>

definition build_transfer_request :: "'d platform \<Rightarrow> string \<Rightarrow> transfer_msg" where
  "build_transfer_request P img =
     \<lparr>tm_reference = img, tm_store_name = img, tm_snapshotter = DEFAULT_SNAPSHOTTER, tm_os = ''linux'', tm_architecture = oci_arch P\<rparr>"

definition image_exists :: "'d platform \<Rightarrow> string \<Rightarrow> string \<Rightarrow> ('d, bool) op" where
  "image_exists P ns img =
     call_raw (images_get P ns img) (\<lambda>r. case r of
        Inr _ \<Rightarrow> ret True
      | Inl s \<Rightarrow> if status_code s = Code_NotFound then ret False else fail (into_crate_error s ''image_exists''))"

definition pull_image :: "'d platform \<Rightarrow> string \<Rightarrow> string \<Rightarrow> ('d, unit) op" where
  "pull_image P ns img =
     bind (image_exists P ns img) (\<lambda>present.
       if present then ret ()
       else call (transfer P ns (build_transfer_request P img)) (\<lambda>s. into_crate_error s ''pull_image''))"

text \<open>A pull of an image that is already there transfers nothing, so a second pull after a successful one is free.\<close>

lemma pull_image_idempotent:
  assumes "images_get P ns img (daemon w) = (Inr m, d)"
  shows "pull_image P ns img w = (Inr (), w\<lparr>daemon := d\<rparr>)"
  using assms by (simp add: pull_image_def image_exists_def call_raw_def rpc_call_def bind_def)

text \<open>A look-up that fails for any other reason than absence is reported and nothing is transferred.\<close>

lemma pull_image_lookup_error:
  assumes "images_get P ns img (daemon w) = (Inl s, d)" "status_code s \<noteq> Code_NotFound"
  shows "pull_image P ns img w = (Inl (into_crate_error s ''image_exists''), w\<lparr>daemon := d\<rparr>)"
  using assms by (simp add: pull_image_def image_exists_def call_raw_def rpc_call_def bind_def)

end
