(* ===== verification/Utf8.thy ===== *)
theory Utf8
  imports Prelude
begin

text \<open>
  The reading of bytes as text by \<^verbatim>\<open>String::from_utf8_lossy\<close> of the standard library, which
  \<^verbatim>\<open>ExecOutput::stdout_str\<close> and \<^verbatim>\<open>stderr_str\<close> of src/src/exec.rs use: well-formed UTF-8 is kept, and
  each longest beginning of a character that is not continued becomes one replacement character.
\<close>

section \<open>Model\<close>

definition safe_get :: "bytes \<Rightarrow> nat \<Rightarrow> nat" where
  "safe_get bs i = (if i < length bs then of_char (bs ! i) else 0)"

definition is_cont :: "nat \<Rightarrow> bool" where
  "is_cont b \<longleftrightarrow> 0x80 \<le> b \<and> b \<le> 0xBF"

definition utf8_char_width :: "nat \<Rightarrow> nat" where
  "utf8_char_width b =
     (if b \<le> 0x7F then 1 else if b < 0xC2 then 0 else if b \<le> 0xDF then 2 else if b \<le> 0xEF then 3 else if b \<le> 0xF4 then 4 else 0)"

text \<open>Which second byte may follow a first one: no overlong form, no surrogate, nothing above the last code point.\<close>

definition second_ok :: "nat \<Rightarrow> nat \<Rightarrow> bool" where
  "second_ok b n \<longleftrightarrow> is_cont n \<and> (b = 0xE0 \<longrightarrow> 0xA0 \<le> n) \<and> (b = 0xED \<longrightarrow> n \<le> 0x9F) \<and> (b = 0xF0 \<longrightarrow> 0x90 \<le> n) \<and> (b = 0xF4 \<longrightarrow> n \<le> 0x8F)"

text \<open>The first character of the bytes: whether it is well formed, and how many bytes have been looked at.\<close>

definition utf8_step :: "bytes \<Rightarrow> bool \<times> nat" where
  "utf8_step bs =
     (let b = safe_get bs 0; w = utf8_char_width b in
      if w = 1 then (True, 1)
      else if w = 0 \<or> \<not> second_ok b (safe_get bs 1) then (False, 1)
      else if w = 2 then (True, 2)
      else if \<not> is_cont (safe_get bs 2) then (False, 2)
      else if w = 3 then (True, 3)
      else if \<not> is_cont (safe_get bs 3) then (False, 3)
      else (True, 4))"

definition REPLACEMENT :: bytes where "REPLACEMENT = [CHR 0xEF, CHR 0xBF, CHR 0xBD]"

lemma utf8_step_pos: "0 < snd (utf8_step bs)"
  by (simp add: utf8_step_def Let_def)

function from_utf8_lossy :: "bytes \<Rightarrow> bytes" where
  "from_utf8_lossy bs =
     (if bs = [] then []
      else (case utf8_step bs of (ok, n) \<Rightarrow> (if ok then take n bs else REPLACEMENT) @ from_utf8_lossy (drop n bs)))"
  by pat_completeness auto
termination
  by (relation "measure length") (use utf8_step_pos in \<open>auto simp: prod_eq_iff\<close>)

declare from_utf8_lossy.simps [simp del]

section \<open>Text\<close>

definition scalar :: "nat \<Rightarrow> bool" where
  "scalar c \<longleftrightarrow> c < 0xD800 \<or> 0xE000 \<le> c \<and> c < 0x110000"

definition utf8_encode :: "nat \<Rightarrow> bytes" where
  "utf8_encode c = map char_of
     (if c < 0x80 then [c]
      else if c < 0x800 then [0xC0 + c div 64, 0x80 + c mod 64]
      else if c < 0x10000 then [0xE0 + c div 4096, 0x80 + c div 64 mod 64, 0x80 + c mod 64]
      else [0xF0 + c div 262144, 0x80 + c div 4096 mod 64, 0x80 + c div 64 mod 64, 0x80 + c mod 64])"

lemma safe_get_Cons: "safe_get (c # cs) 0 = of_char c" "safe_get (c # cs) (Suc i) = safe_get cs i"
  by (simp_all add: safe_get_def)

lemma safe_get_numeral:
  "safe_get (c # cs) (Suc 0) = safe_get cs 0" "safe_get (c # cs) 2 = safe_get cs (Suc 0)" "safe_get (c # cs) 3 = safe_get cs 2"
  by (simp_all add: safe_get_def numeral_nat)

lemmas utf8_bytes = safe_get_Cons(1) safe_get_numeral is_cont_def second_ok_def utf8_char_width_def utf8_step_def Let_def

lemma cont_bounds: "128 + c mod 64 \<le> (191::nat)" "128 \<le> 128 + c mod (64::nat)"
  using mod_less_divisor [of 64 c] by (simp_all del: mod_less_divisor)

lemma utf8_step_encode:
  assumes "scalar c"
  shows "utf8_step (utf8_encode c @ rest) = (True, length (utf8_encode c))"
proof -
  consider "c < 0x80" | "0x80 \<le> c" "c < 0x800" | "0x800 \<le> c" "c < 0x10000" | "0x10000 \<le> c" by linarith
  then show ?thesis
  proof cases
    case 1
    then show ?thesis by (simp add: utf8_encode_def utf8_bytes)
  next
    case 2
    then have "2 \<le> c div 64" "c div 64 < 32" by simp_all
    with 2 cont_bounds [of c] show ?thesis by (simp add: utf8_encode_def utf8_bytes)
  next
    case 3
    let ?q = "c div 64"
    have q: "c div 4096 = ?q div 64" by (simp flip: div_mult2_eq)
    have "32 \<le> ?q" "?q < 1024" "?q < 864 \<or> 896 \<le> ?q" using 3 assms by (auto simp: scalar_def less_eq_div_iff_mult_less_eq div_less_iff_less_mult)
    then have e: "?q div 64 < 16" "?q div 64 = 0 \<longrightarrow> 32 \<le> ?q mod 64" "?q div 64 = 13 \<longrightarrow> ?q mod 64 \<le> 31"
      using div_mult_mod_eq [of ?q 64] mod_less_divisor [of 64 ?q] by linarith+
    with 3 cont_bounds [of c] cont_bounds [of ?q] show ?thesis by (simp add: utf8_encode_def utf8_bytes q)
  next
    case 4
    let ?r = "c div 4096"
    have r: "c div 262144 = ?r div 64" by (simp flip: div_mult2_eq)
    have "16 \<le> ?r" "?r < 272" using 4 assms by (auto simp: scalar_def less_eq_div_iff_mult_less_eq div_less_iff_less_mult)
    then have e: "?r div 64 < 5" "?r div 64 = 0 \<longrightarrow> 16 \<le> ?r mod 64" "?r div 64 = 4 \<longrightarrow> ?r mod 64 \<le> 15"
      using div_mult_mod_eq [of ?r 64] mod_less_divisor [of 64 ?r] by linarith+
    with 4 cont_bounds [of c] cont_bounds [of "c div 64"] cont_bounds [of ?r] show ?thesis
      by (simp add: utf8_encode_def utf8_bytes r)
  qed
qed

text \<open>Text stays as it is.\<close>

lemma utf8_encode_Nil [simp]: "utf8_encode c \<noteq> []"
  by (simp add: utf8_encode_def)

lemma from_utf8_lossy_char: "scalar c \<Longrightarrow> from_utf8_lossy (utf8_encode c @ rest) = utf8_encode c @ from_utf8_lossy rest"
  by (subst from_utf8_lossy.simps) (simp add: utf8_step_encode)

lemma from_utf8_lossy_text:
  "list_all scalar cs \<Longrightarrow> from_utf8_lossy (concat (map utf8_encode cs)) = concat (map utf8_encode cs)"
  by (induction cs) (simp_all add: from_utf8_lossy_char, simp add: from_utf8_lossy.simps)

text \<open>Any bytes become text.\<close>

lemma REPLACEMENT_encode: "REPLACEMENT = utf8_encode 0xFFFD" "scalar 0xFFFD"
  by (simp_all add: REPLACEMENT_def utf8_encode_def scalar_def, code_simp)

lemma of_char_split: "k \<le> of_char c \<Longrightarrow> \<exists>x. c = char_of (k + x) \<and> of_char c = k + (x :: nat)"
  by (rule exI [of _ "of_char c - k"]) simp

lemma push64: "y < 64 \<Longrightarrow> (x * 64 + y) div 64 = x" "y < 64 \<Longrightarrow> (x * 64 + y) mod 64 = (y :: nat)"
  by simp_all

lemma div_block: "r < k \<Longrightarrow> (k * x + r) div k = (x :: nat)"
  by simp

lemma encode2: "2 \<le> x \<Longrightarrow> x < 32 \<Longrightarrow> y < 64 \<Longrightarrow>
    \<exists>c. scalar c \<and> utf8_encode c = map char_of [0xC0 + x, 0x80 + y :: nat]"
  by (rule exI [of _ "x * 64 + y"]) (simp add: utf8_encode_def scalar_def push64)

lemma encode3:
  fixes x y z :: nat
  assumes "x < 16" "y < 64" "z < 64" "x = 0 \<longrightarrow> 32 \<le> y" "x = 13 \<longrightarrow> y \<le> 31"
  shows "\<exists>c. scalar c \<and> utf8_encode c = map char_of [0xE0 + x, 0x80 + y, 0x80 + z]"
proof -
  let ?c = "(x * 64 + y) * 64 + z"
  have c: "?c = 4096 * x + (y * 64 + z)" by simp
  have "?c div 4096 = x" unfolding c by (rule div_block) (use assms(2,3) in linarith)
  moreover have "?c < 0xD800 \<or> 0xE000 \<le> ?c \<and> ?c < 0x110000"
  proof -
    consider "x \<le> 12" | "x = 13" "y \<le> 31" | "14 \<le> x" using assms(5) by linarith
    then show ?thesis using assms(1-3) by cases auto
  qed
  then have "scalar ?c" by (simp only: scalar_def)
  moreover have "0x800 \<le> ?c" using assms(4) by (cases "x = 0") auto
  moreover have "?c < 0x10000" unfolding c using assms(1-3) by auto
  moreover have "?c div 64 mod 64 = y" "?c mod 64 = z" using assms(2,3) by (simp_all only: push64)
  ultimately show ?thesis by (intro exI [of _ ?c]) (simp add: utf8_encode_def)
qed

lemma encode4:
  fixes x y z u :: nat
  assumes "x < 5" "y < 64" "z < 64" "u < 64" "x = 0 \<longrightarrow> 16 \<le> y" "x = 4 \<longrightarrow> y \<le> 15"
  shows "\<exists>c. scalar c \<and> utf8_encode c = map char_of [0xF0 + x, 0x80 + y, 0x80 + z, 0x80 + u]"
proof -
  let ?c = "((x * 64 + y) * 64 + z) * 64 + u"
  have c: "?c = 262144 * x + (y * 4096 + z * 64 + u)" "?c = 4096 * (x * 64 + y) + (z * 64 + u)" by simp_all
  have "?c div 262144 = x" unfolding c(1) by (rule div_block) (use assms(2-4) in linarith)
  moreover have "?c div 4096 = x * 64 + y" unfolding c(2) by (rule div_block) (use assms(3,4) in linarith)
  moreover have "0x10000 \<le> ?c \<and> ?c < 0x110000"
  proof
    show "0x10000 \<le> ?c" using assms(5) by (cases "x = 0") auto
    show "?c < 0x110000" using assms(1-4,6) by (cases "x = 4") auto
  qed
  moreover from this have "scalar ?c" unfolding scalar_def by linarith
  moreover have "?c div 64 mod 64 = z" "?c mod 64 = u" "(x * 64 + y) mod 64 = y" using assms(2-4) by (simp_all only: push64)
  ultimately show ?thesis by (intro exI [of _ ?c]) (simp add: utf8_encode_def)
qed

lemma take_nths:
  "1 < length xs \<Longrightarrow> take 2 xs = [xs ! 0, xs ! 1]" "2 < length xs \<Longrightarrow> take 3 xs = [xs ! 0, xs ! 1, xs ! 2]"
  "3 < length xs \<Longrightarrow> take 4 xs = [xs ! 0, xs ! 1, xs ! 2, xs ! 3]"
  by (cases "xs = []"; simp add: numeral_nat take_Suc_conv_app_nth)+

lemma utf8_step_char:
  assumes "bs \<noteq> []" "utf8_step bs = (True, n)"
  shows "n \<le> length bs \<and> (\<exists>c. scalar c \<and> take n bs = utf8_encode c)"
proof -
  obtain a r where bs: "bs = a # r" using assms(1) by (cases bs) auto
  let ?a = "of_char a :: nat" and ?b = "safe_get bs 1" and ?c = "safe_get bs 2" and ?d = "safe_get bs 3"
  have hd: "bs ! 0 = a" by (simp add: bs)
  have a0: "safe_get bs 0 = ?a" by (simp add: bs safe_get_Cons)
  have get: "is_cont (safe_get bs i) \<Longrightarrow> i < length bs \<and> (\<exists>y<64. bs ! i = char_of (0x80 + y) \<and> safe_get bs i = 0x80 + y)" for i
    using of_char_split [of 128 "bs ! i"] by (fastforce simp: safe_get_def is_cont_def split: if_splits)
  consider (one) "?a \<le> 0x7F" "n = 1" | (two) "0xC2 \<le> ?a" "?a \<le> 0xDF" "second_ok ?a ?b" "n = 2"
    | (three) "0xE0 \<le> ?a" "?a \<le> 0xEF" "second_ok ?a ?b" "is_cont ?c" "n = 3"
    | (four) "0xF0 \<le> ?a" "?a \<le> 0xF4" "second_ok ?a ?b" "is_cont ?c" "is_cont ?d" "n = 4"
    using assms(2) unfolding utf8_step_def Let_def a0 utf8_char_width_def by (auto split: if_splits)
  then show ?thesis
  proof cases
    case one
    then have "scalar ?a \<and> take n bs = utf8_encode ?a" by (simp add: bs scalar_def utf8_encode_def)
    with one bs show ?thesis by auto
  next
    case two
    then obtain x y :: nat where "a = char_of (0xC0 + x)" "?a = 0xC0 + x" "y < 64" "bs ! 1 = char_of (0x80 + y)" "1 < length bs"
      using of_char_split [of 192 a] get [of 1] by (auto simp: second_ok_def)
    moreover from this two have "2 \<le> x" "x < 32" by auto
    ultimately show ?thesis using two(4) encode2 [of x y] hd by (auto simp: take_nths)
  next
    case three
    then obtain x y z :: nat where "a = char_of (0xE0 + x)" "?a = 0xE0 + x" "y < 64" "bs ! 1 = char_of (0x80 + y)" "?b = 0x80 + y"
      "z < 64" "bs ! 2 = char_of (0x80 + z)" "2 < length bs"
      using of_char_split [of 224 a] get [of 1] get [of 2] by (auto simp: second_ok_def)
    moreover from this three have "x < 16" "x = 0 \<longrightarrow> 32 \<le> y" "x = 13 \<longrightarrow> y \<le> 31" by (auto simp: second_ok_def)
    ultimately show ?thesis using three(5) encode3 [of x y z] hd by (auto simp: take_nths)
  next
    case four
    then obtain x y z u :: nat where "a = char_of (0xF0 + x)" "?a = 0xF0 + x" "y < 64" "bs ! 1 = char_of (0x80 + y)" "?b = 0x80 + y"
      "z < 64" "bs ! 2 = char_of (0x80 + z)" "u < 64" "bs ! 3 = char_of (0x80 + u)" "3 < length bs"
      using of_char_split [of 240 a] get [of 1] get [of 2] get [of 3] by (auto simp: second_ok_def)
    moreover from this four have "x < 5" "x = 0 \<longrightarrow> 16 \<le> y" "x = 4 \<longrightarrow> y \<le> 15" by (auto simp: second_ok_def)
    ultimately show ?thesis using four(6) encode4 [of x y z u] hd by (auto simp: take_nths)
  qed
qed

lemma from_utf8_lossy_is_text: "\<exists>cs. list_all scalar cs \<and> from_utf8_lossy bs = concat (map utf8_encode cs)"
proof (induction bs rule: from_utf8_lossy.induct)
  case (1 bs)
  show ?case
  proof (cases "bs = []")
    case True
    then show ?thesis by (intro exI [of _ "[]"]) (simp add: from_utf8_lossy.simps)
  next
    case False
    obtain ok n where n: "utf8_step bs = (ok, n)" by fastforce
    from "1.IH" [OF False n [symmetric]] obtain cs where cs: "list_all scalar cs"
      "from_utf8_lossy (drop n bs) = concat (map utf8_encode cs)" by blast
    obtain c where "scalar c" "(if ok then take n bs else REPLACEMENT) = utf8_encode c"
      using utf8_step_char [OF False, of n] n REPLACEMENT_encode by (cases ok) auto
    with cs False n show ?thesis by (intro exI [of _ "c # cs"]) (subst from_utf8_lossy.simps, simp)
  qed
qed

text \<open>So exactly text is kept, and reading twice is reading once.\<close>

lemma from_utf8_lossy_id: "from_utf8_lossy bs = bs \<longleftrightarrow> (\<exists>cs. list_all scalar cs \<and> bs = concat (map utf8_encode cs))"
  using from_utf8_lossy_is_text [of bs] from_utf8_lossy_text by metis

lemma from_utf8_lossy_twice: "from_utf8_lossy (from_utf8_lossy bs) = from_utf8_lossy bs"
  using from_utf8_lossy_is_text [of bs] from_utf8_lossy_text by metis

text \<open>The acceptance test of \<^verbatim>\<open>std::str::from_utf8\<close> accepts exactly what the lossy reading keeps.\<close>

lemma safe_get_Nil: "safe_get [] i = 0"
  by (simp add: safe_get_def)

lemma utf8_valid_step:
  assumes "bs \<noteq> []"
  shows "utf8_valid bs \<longleftrightarrow> (case utf8_step bs of (ok, n) \<Rightarrow> ok \<and> utf8_valid (drop n bs))"
proof -
  obtain a xs where bs: "bs = a # xs" using assms by (cases bs) auto
  note step = bs utf8_valid.simps(2) utf8_bytes safe_get_Nil
  consider (one) "of_char a \<le> (0x7F :: nat)" | (bad) "(0x7F :: nat) < of_char a" "of_char a < (0xC2 :: nat)"
    | (two) "(0xC2 :: nat) \<le> of_char a" "of_char a \<le> (0xDF :: nat)" | (three) "(0xE0 :: nat) \<le> of_char a" "of_char a \<le> (0xEF :: nat)"
    | (four) "(0xF0 :: nat) \<le> of_char a" "of_char a \<le> (0xF4 :: nat)" | (high) "(0xF4 :: nat) < of_char a"
    by linarith
  then show ?thesis
  proof cases
    case one
    then show ?thesis by (simp add: step)
  next
    case bad
    then show ?thesis by (auto simp: step split: list.split)
  next
    case two
    then show ?thesis by (cases xs) (auto simp: step)
  next
    case three
    then show ?thesis by (cases xs; cases "tl xs") (auto simp: step)
  next
    case four
    then show ?thesis by (cases xs; cases "tl xs"; cases "tl (tl xs)") (auto simp: step)
  next
    case high
    then show ?thesis by (auto simp: step split: list.split)
  qed
qed

lemma utf8_step_replacement: "utf8_step (REPLACEMENT @ rest) = (True, 3)"
  using utf8_step_encode [OF REPLACEMENT_encode(2), of rest] unfolding REPLACEMENT_encode(1) [symmetric] by (simp add: REPLACEMENT_def)

lemma utf8_valid_lossy: "utf8_valid bs \<longleftrightarrow> from_utf8_lossy bs = bs"
proof (induction bs rule: from_utf8_lossy.induct)
  case (1 bs)
  show ?case
  proof (cases "bs = []")
    case True
    then show ?thesis by (simp add: from_utf8_lossy.simps)
  next
    case False
    obtain ok n where n: "utf8_step bs = (ok, n)" by fastforce
    note ih = "1.IH" [OF False n [symmetric]]
    show ?thesis
    proof (cases ok)
      case True
      have "from_utf8_lossy bs = take n bs @ from_utf8_lossy (drop n bs)" using False True n by (subst from_utf8_lossy.simps) simp
      then have "from_utf8_lossy bs = bs \<longleftrightarrow> from_utf8_lossy (drop n bs) = drop n bs"
        by (metis append_take_drop_id same_append_eq)
      with ih True n utf8_valid_step [OF False] show ?thesis by simp
    next
      case bad: False
      have "from_utf8_lossy bs = REPLACEMENT @ from_utf8_lossy (drop n bs)" using False bad n by (subst from_utf8_lossy.simps) simp
      then have "from_utf8_lossy bs \<noteq> bs" using n bad utf8_step_replacement by (metis prod.inject)
      with bad n utf8_valid_step [OF False] show ?thesis by simp
    qed
  qed
qed

end
