(* ===== verification/Exec.thy ===== *)
theory Exec
  imports Task Utf8
begin

text \<open>
  Running a command in a task: src/src/exec.rs. What the process writes to its two output files while
  it runs is a step of the environment, the argument \<open>shim\<close>, taken between the remote wait and the
  reading of the files. The guard that removes the directory when the function returns is modelled
  at its return.
\<close>

section \<open>Model\<close>

definition DEFAULT_EXEC_MAX_OUTPUT_BYTES :: nat where
  "DEFAULT_EXEC_MAX_OUTPUT_BYTES = 16 * 1024 * 1024"

record exec_opts =
  eo_max_output_bytes :: nat

definition default_exec_opts :: exec_opts where
  "default_exec_opts = \<lparr>eo_max_output_bytes = DEFAULT_EXEC_MAX_OUTPUT_BYTES\<rparr>"

record exec_output =
  ex_stdout :: bytes
  ex_stderr :: bytes
  ex_exit_code :: int
  ex_truncated_stdout :: bool
  ex_truncated_stderr :: bool

definition stdout_str :: "exec_output \<Rightarrow> string" where
  "stdout_str out = from_utf8_lossy (ex_stdout out)"

definition stderr_str :: "exec_output \<Rightarrow> string" where
  "stderr_str out = from_utf8_lossy (ex_stderr out)"

definition generate_exec_id :: "'d platform \<Rightarrow> 'd world \<Rightarrow> string \<times> 'd world" where
  "generate_exec_id P w =
     (''exec-'' @ show_nat (process_id P) @ ''-'' @ show_nat (unat (exec_counter w)), w\<lparr>exec_counter := exec_counter w + 1\<rparr>)"

definition exec_file :: "string \<Rightarrow> (fs \<Rightarrow> (io_kind + unit) \<times> fs) \<Rightarrow> ('d, unit) op" where
  "exec_file ctx f = with_files (\<lambda>fl. io_err ctx (f fl))"

text \<open>The directory, and in it the paths of the two output files.\<close>

definition create_io_dir :: "'d platform \<Rightarrow> ('d, string \<times> string \<times> string) op" where
  "create_io_dir P =
     bind (from_result (ok_or (home_dir P) (Io ''home directory'' Kind_NotFound))) (\<lambda>home.
     let base = path_join (path_join home ''.containerd-manager'') ''exec-io''
     in bind (exec_file ''create exec-io base dir'' (fs_create_dir_all base)) (\<lambda>_ w.
        case generate_exec_id P w of (i, w') \<Rightarrow>
          (let dir = path_join base i; out_path = path_join dir ''stdout''; err_path = path_join dir ''stderr''
           in bind (exec_file ''create exec-io dir'' (fs_create_dir_all dir)) (\<lambda>_.
              bind (exec_file ''create exec stdout file'' (fs_write out_path [])) (\<lambda>_.
              bind (exec_file ''create exec stderr file'' (fs_write err_path [])) (\<lambda>_.
                ret (dir, out_path, err_path)))) w')))"

definition build_exec_process_spec :: "'d platform \<Rightarrow> string list \<Rightarrow> string list \<Rightarrow> any_msg" where
  "build_exec_process_spec P command env =
     \<lparr>type_url = ''types.containerd.io/opencontainers/runtime-spec/1/Process'',
      any_value = process_to_json P \<lparr>op_terminal = False, op_args = command, op_env = Some env, op_cwd = ''/'',
         op_capabilities = Some default_exec_capabilities\<rparr>\<rparr>"

definition build_exec_request :: "string \<Rightarrow> string \<Rightarrow> string \<Rightarrow> string \<Rightarrow> any_msg \<Rightarrow> exec_msg" where
  "build_exec_request container_id exec_id out_path err_path spec =
     \<lparr>em_container_id = container_id, em_exec_id = exec_id, em_stdin = [], em_stdout = out_path, em_stderr = err_path,
      em_terminal = False, em_spec = Some spec\<rparr>"

definition read_capped :: "string \<Rightarrow> nat \<Rightarrow> fs \<Rightarrow> (bytes \<times> bool) result \<times> fs" where
  "read_capped path cap f =
     (case io_err ''read exec output: open'' (fs_open path f) of
        (Inl e, f1) \<Rightarrow> (Inl e, f1)
      | (Inr file, f1) \<Rightarrow>
        (case io_err ''read exec output: stat'' (handle_len file f1) of
           (Inl e, f2) \<Rightarrow> (Inl e, f2)
         | (Inr total_len, f2) \<Rightarrow>
           (case io_err ''read exec output'' (handle_read file 0 (Some (min total_len cap)) f2) of
              (Inl e, f3) \<Rightarrow> (Inl e, f3)
            | (Inr buf, f3) \<Rightarrow> (Inr (buf, total_len > cap), f3))))"

text \<open>The function after its directory has been made.\<close>

definition exec_in_dir ::
  "'d platform \<Rightarrow> string \<Rightarrow> (string \<Rightarrow> string \<Rightarrow> fs \<Rightarrow> fs) \<Rightarrow> string \<Rightarrow> string list \<Rightarrow> nat \<Rightarrow> string \<Rightarrow> string \<Rightarrow> string \<Rightarrow> ('d, exec_output) op" where
  "exec_in_dir P ns shim container_id command max_output_bytes exec_id out_path err_path =
     bind (inspect_container P ns container_id) (\<lambda>info.
     let spec = build_exec_process_spec P command (map (\<lambda>(k, v). k @ ''='' @ v) (ci_env info))
     in bind (call (tasks_exec P ns (build_exec_request container_id exec_id out_path err_path spec))
               (\<lambda>s. into_crate_error s ''exec_create'')) (\<lambda>_.
        bind (call (tasks_start P ns container_id exec_id) (\<lambda>s. into_crate_error s ''exec_start'')) (\<lambda>_.
        bind (call (tasks_wait P ns container_id exec_id) (\<lambda>s. into_crate_error s ''exec_wait'')) (\<lambda>exit_status.
        bind (with_files (\<lambda>f. (Inr (), shim out_path err_path f))) (\<lambda>_.
        bind (with_files (read_capped out_path max_output_bytes)) (\<lambda>(stdout, truncated_stdout).
        bind (with_files (read_capped err_path max_output_bytes)) (\<lambda>(stderr, truncated_stderr).
        call_raw (tasks_delete_process P ns container_id exec_id) (\<lambda>_.
          ret \<lparr>ex_stdout = stdout, ex_stderr = stderr, ex_exit_code = exit_code_wrapping exit_status,
               ex_truncated_stdout = truncated_stdout, ex_truncated_stderr = truncated_stderr\<rparr>))))))))"

definition exec_with_opts ::
  "'d platform \<Rightarrow> string \<Rightarrow> (string \<Rightarrow> string \<Rightarrow> fs \<Rightarrow> fs) \<Rightarrow> string \<Rightarrow> string list \<Rightarrow> exec_opts \<Rightarrow> ('d, exec_output) op" where
  "exec_with_opts P ns shim container_id command opts =
     (if command = [] then fail (InvalidArgument ''command must not be empty'')
      else (\<lambda>w. case generate_exec_id P w of (exec_id, w1) \<Rightarrow>
        bind (create_io_dir P) (\<lambda>(dir, out_path, err_path).
          try_op (exec_in_dir P ns shim container_id command (eo_max_output_bytes opts) exec_id out_path err_path) (\<lambda>r w2.
            (r, w2\<lparr>files := snd (fs_remove_dir_all dir (files w2))\<rparr>))) w1))"

definition exec :: "'d platform \<Rightarrow> string \<Rightarrow> (string \<Rightarrow> string \<Rightarrow> fs \<Rightarrow> fs) \<Rightarrow> string \<Rightarrow> string list \<Rightarrow> ('d, exec_output) op" where
  "exec P ns shim container_id command = exec_with_opts P ns shim container_id command default_exec_opts"

text \<open>What a command prints as text is read as that text, if it is not cut.\<close>

lemma output_str_text:
  "list_all scalar cs \<Longrightarrow> ex_stdout out = concat (map utf8_encode cs) \<Longrightarrow> stdout_str out = ex_stdout out"
  "list_all scalar cs \<Longrightarrow> ex_stderr out = concat (map utf8_encode cs) \<Longrightarrow> stderr_str out = ex_stderr out"
  by (simp_all add: stdout_str_def stderr_str_def from_utf8_lossy_text)

section \<open>Identifiers\<close>

lemma exec_id_eq: "fst (generate_exec_id P w) = fst (generate_exec_id P v) \<longleftrightarrow> exec_counter w = exec_counter v"
  by (simp add: generate_exec_id_def word_unat_eq_iff)

text \<open>The identifiers of a process repeat only after 2 to the power 64 calls.\<close>

lemma exec_ids_distinct:
  assumes "i < j" "j < 2 ^ 64"
  shows "fst (generate_exec_id P (((\<lambda>w. snd (generate_exec_id P w)) ^^ i) w))
    \<noteq> fst (generate_exec_id P (((\<lambda>w. snd (generate_exec_id P w)) ^^ j) w))"
proof -
  have c: "exec_counter (((\<lambda>w. snd (generate_exec_id P w)) ^^ n) w) = exec_counter w + of_nat n" for n
    by (induction n) (simp_all add: generate_exec_id_def add.assoc add.commute)
  have "(of_nat i :: u64) \<noteq> of_nat j"
    using assms by (simp add: word_of_nat_eq_iff take_bit_nat_eq_self)
  with c show ?thesis by (simp add: exec_id_eq)
qed

section \<open>Files\<close>

lemma quiet_write: "fs_write p b f = (r, g) \<Longrightarrow> quiet f \<Longrightarrow> quiet g"
  by (auto simp: fs_write_def Let_def split: if_splits)

lemma read_capped_quiet:
  assumes "quiet f"
  shows "read_capped p cap f = (case content f p of
     None \<Rightarrow> (Inl (Io ''read exec output: open'' Kind_NotFound), f) | Some b \<Rightarrow> (Inr (take cap b, cap < length b), f))"
  using assms
  by (auto simp: read_capped_def io_err_def fs_open_def handle_len_def handle_read_def content_def min_def split: option.split)

lemma write_names: "quiet f \<Longrightarrow> fs_write p b f = (Inr (), snd (fs_write p b f))"
  "quiet f \<Longrightarrow> fs_names f q \<noteq> None \<or> q = p \<Longrightarrow> fs_names (snd (fs_write p b f)) q \<noteq> None"
  by (auto simp: fs_write_def Let_def create_empty_def)

lemma write_empty:
  "quiet f \<Longrightarrow> content (snd (fs_write p [] f)) p = Some []"
  "quiet f \<Longrightarrow> content f q = Some [] \<Longrightarrow> content (snd (fs_write p [] f)) q = Some []"
  by (auto simp: fs_write_def content_def create_empty_def Let_def)

text \<open>The directory of one command.\<close>

definition exec_dir :: "string \<Rightarrow> string \<Rightarrow> string" where
  "exec_dir home i = path_join (path_join (path_join home ''.containerd-manager'') ''exec-io'') i"

lemma create_io_dir_ok:
  assumes "home_dir P = Some h" "quiet (files w)"
  obtains dir so se v where "create_io_dir P w = (Inr (dir, so, se), v)" "daemon v = daemon w" "quiet (files v)"
    "dir = exec_dir h (fst (generate_exec_id P w))" "so = path_join dir ''stdout''" "se = path_join dir ''stderr''"
    "content (files v) so = Some []" "content (files v) se = Some []"
proof -
  obtain i w1 where i: "generate_exec_id P w = (i, w1)" "w1 = w\<lparr>exec_counter := exec_counter w + 1\<rparr>"
    by (simp add: generate_exec_id_def)
  define dir where "dir = exec_dir h i"
  define so se where "so = path_join dir ''stdout''" and "se = path_join dir ''stderr''"
  obtain f1 where f1: "fs_write so [] (files w) = (Inr (), f1)" using write_names(1) [OF assms(2)] by metis
  note q1 = quiet_write [OF f1 assms(2)]
  obtain f2 where f2: "fs_write se [] f1 = (Inr (), f2)" using write_names(1) [OF q1] by metis
  note q2 = quiet_write [OF f2 q1]
  have "create_io_dir P w = (Inr (dir, so, se), w1\<lparr>files := f2\<rparr>)"
    using assms i f1 f2 q1 unfolding create_io_dir_def Let_def
    by (simp add: exec_file_def with_files_def io_err_def bind_def fs_create_dir_all_def
        flip: exec_dir_def dir_def so_def se_def)
  moreover have "content f2 so = Some []" "content f2 se = Some []"
    using write_empty(1) [OF assms(2), of so] write_empty(1) [OF q1, of se] write_empty(2) [OF q1, of so se] f1 f2 by simp_all
  ultimately show thesis using that q2 i so_def se_def dir_def by simp
qed

lemma create_io_dir_result:
  assumes "create_io_dir P w = (Inr (dir, so, se), v)" "quiet (files w)"
  obtains home where "home_dir P = Some home" "dir = exec_dir home (fst (generate_exec_id P w))"
    "so = path_join dir ''stdout''" "se = path_join dir ''stderr''" "quiet (files v)"
    "content (files v) so = Some []" "content (files v) se = Some []"
proof (cases "home_dir P")
  case None
  with assms(1) have False by (simp add: create_io_dir_def bind_def)
  then show thesis ..
next
  case (Some home)
  from create_io_dir_ok [OF this assms(2)] assms(1) that [OF Some] show thesis by (metis Inr_inject Pair_inject)
qed

lemma exec_in_dir_output:
  assumes "exec_in_dir P ns shim c cmd cap i so se w = (Inr out, v)" "quiet (files w)" "quiet (shim so se (files w))"
  shows "\<exists>b1 b2. content (shim so se (files w)) so = Some b1 \<and> content (shim so se (files w)) se = Some b2
    \<and> ex_stdout out = take cap b1 \<and> ex_truncated_stdout out = (cap < length b1)
    \<and> ex_stderr out = take cap b2 \<and> ex_truncated_stderr out = (cap < length b2) \<and> files v = shim so se (files w)"
proof -
  have "files w1 = files w" if "inspect_container P ns c w = (r, w1)" for r w1
    using remote_onlyD [OF remote_inspect that] by (metis world.select_convs(6) world.surjective world.update_convs(1))
  with assms show ?thesis
    unfolding exec_in_dir_def Let_def
    by (auto elim!: bindE callE simp: with_files_def read_capped_quiet call_raw_def rpc_call_def split: prod.splits option.splits)
qed

section \<open>Properties\<close>

text \<open>
  C36: a command that ran returns what it wrote into its two output files, which were empty before it:
  of each the first bytes up to the cap, flagged as truncated exactly when there were more. Its
  directory is the one of the second identifier drawn, and no file of it is left.
\<close>

theorem exec_captures_output:
  assumes "quiet (files w)" "\<And>so se f. quiet f \<Longrightarrow> quiet (shim so se f)"
    and "exec_with_opts P ns shim c cmd \<lparr>eo_max_output_bytes = cap\<rparr> w = (Inr out, w')"
  shows "\<exists>home dir f b1 b2. home_dir P = Some home \<and> dir = exec_dir home (fst (generate_exec_id P (snd (generate_exec_id P w))))
    \<and> content f (path_join dir ''stdout'') = Some [] \<and> content f (path_join dir ''stderr'') = Some []
    \<and> content (shim (path_join dir ''stdout'') (path_join dir ''stderr'') f) (path_join dir ''stdout'') = Some b1
    \<and> content (shim (path_join dir ''stdout'') (path_join dir ''stderr'') f) (path_join dir ''stderr'') = Some b2
    \<and> ex_stdout out = take cap b1 \<and> ex_truncated_stdout out = (cap < length b1)
    \<and> ex_stderr out = take cap b2 \<and> ex_truncated_stderr out = (cap < length b2)
    \<and> (\<forall>p. below dir p \<longrightarrow> content (files w') p = None)"
proof -
  obtain i w1 where i: "generate_exec_id P w = (i, w1)" by fastforce
  then have q1: "quiet (files w1)" using assms(1) by (auto simp: generate_exec_id_def)
  from assms(3) i obtain dir so se v v' where io: "create_io_dir P w1 = (Inr (dir, so, se), v)"
    and ex: "exec_in_dir P ns shim c cmd cap i so se v = (Inr out, v')"
    and w': "w' = v'\<lparr>files := snd (fs_remove_dir_all dir (files v'))\<rparr>"
    by (auto simp: exec_with_opts_def try_op_def elim!: bindE split: if_splits prod.splits)
  obtain home where home: "home_dir P = Some home" "dir = exec_dir home (fst (generate_exec_id P w1))"
    and d: "so = path_join dir ''stdout''" "se = path_join dir ''stderr''" "quiet (files v)"
      "content (files v) so = Some []" "content (files v) se = Some []"
    by (rule create_io_dir_result [OF io q1])
  have q2: "quiet (shim so se (files v))" using assms(2) d(3) by blast
  from exec_in_dir_output [OF ex d(3) q2] obtain b1 b2 where b: "content (shim so se (files v)) so = Some b1"
    "content (shim so se (files v)) se = Some b2" "ex_stdout out = take cap b1" "ex_truncated_stdout out = (cap < length b1)"
    "ex_stderr out = take cap b2" "ex_truncated_stderr out = (cap < length b2)" "files v' = shim so se (files v)" by blast
  have "\<forall>p. below dir p \<longrightarrow> content (files w') p = None"
    using q2 by (simp add: w' b(7) fs_remove_dir_all_def content_def)
  with b d home i show ?thesis by auto
qed

definition echo_shim :: "string \<Rightarrow> string \<Rightarrow> fs \<Rightarrow> fs" where
  "echo_shim so se f = snd (fs_write so ''hello'' f)"

theorem exec_captures_output_witness:
  "\<exists>out w'. exec_with_opts rd_platform ''default'' echo_shim ''c'' [''echo''] \<lparr>eo_max_output_bytes = 2\<rparr> (rd_world (rd_with_task 2)) = (Inr out, w')
     \<and> length (ex_stdout out) \<le> 2"
proof -
  let ?w = "rd_world (rd_with_task 2)"
  let ?e = "exec_with_opts rd_platform ''default'' echo_shim ''c'' [''echo''] \<lparr>eo_max_output_bytes = 2\<rparr> ?w"
  obtain i w1 where i: "generate_exec_id rd_platform ?w = (i, w1)" by fastforce
  then have q1: "quiet (files w1)" "rd_task_is 2 (daemon w1)" "i \<noteq> []"
    by (auto simp: generate_exec_id_def rd_world_def empty_fs_def quiet_def rd_task_is_def rd_with_task_def)
  obtain dir so se v where io: "create_io_dir rd_platform w1 = (Inr (dir, so, se), v)" "daemon v = daemon w1" "quiet (files v)"
    "fs_names (files v) so \<noteq> None" "fs_names (files v) se \<noteq> None"
    by (rule create_io_dir_ok [OF _ q1(1), of rd_platform "''/h''"]) (auto simp: rd_calls content_def)
  obtain info t u where u: "inspect_container rd_platform ''default'' ''c'' v = (Inr info, u)" "rd_task_is 2 (daemon u)"
    by (rule task_shows_inspect [OF rd_shows [of Running 2], of v]) (use q1 io in simp_all)
  then have fu: "files u = files v"
    using remote_onlyD [OF remote_inspect u(1)] by (metis world.select_convs(6) world.surjective world.update_convs(1))
  let ?g = "echo_shim so se (files v)"
  have g: "quiet ?g" "fs_names ?g so \<noteq> None" "fs_names ?g se \<noteq> None"
    using io(3-5) write_names quiet_write unfolding echo_shim_def by (metis prod.collapse)+
  have r: "rd_task_op (\<lambda>_ d. (Inr (), d)) ''default/c'' (daemon u) = (Inr (), daemon u)"
    using u(2) by (auto simp: rd_task_is_def rd_task_op_def)
  obtain out v' where "exec_in_dir rd_platform ''default'' echo_shim ''c'' [''echo''] 2 i so se v = (Inr out, v')"
    using u fu g r q1(3)
    by (auto simp: exec_in_dir_def Let_def bind_def call_def call_raw_def rpc_call_def with_files_def read_capped_quiet content_def
        rd_calls rd_key_def build_exec_request_def split: option.splits)
  with i io(1) obtain w' where e: "?e = (Inr out, w')"
    by (simp add: exec_with_opts_def bind_def try_op_def)
  have "quiet (files ?w)" by (simp add: rd_world_def empty_fs_def quiet_def)
  moreover have "quiet (echo_shim so se f)" if "quiet f" for so se f
    using that quiet_write unfolding echo_shim_def by (metis prod.collapse)
  ultimately obtain b where "ex_stdout out = take 2 (b :: bytes)"
    using exec_captures_output [OF _ _ e] by blast
  with e show ?thesis by simp
qed

end
