(* ===== verification/Readiness.thy ===== *)
theory Readiness
  imports Exec
begin

text \<open>
  Waiting until a container is ready, and probing its health: src/src/readiness.rs.

  The asynchronous runtime is a parameter: \<open>within\<close> is its timeout combinator, which runs a future and
  answers \<open>None\<close> when it cancelled it after the given time, and \<open>tcp_connect\<close> says whether a connection
  to a local port came about within a given time. The text of the timeout error leaves out
  the duration, whose printed form is the formatter's.
\<close>

section \<open>Model\<close>

definition DEFAULT_HC_INTERVAL :: duration where "DEFAULT_HC_INTERVAL = from_secs 30"
definition DEFAULT_HC_TIMEOUT :: duration where "DEFAULT_HC_TIMEOUT = from_secs 30"
definition TCP_CONNECT_TIMEOUT :: duration where "TCP_CONNECT_TIMEOUT = from_secs 5"
definition INITIAL_INTERVAL :: duration where "INITIAL_INTERVAL = from_millis 100"
definition MAX_INTERVAL :: duration where "MAX_INTERVAL = from_secs 2"
definition MULTIPLIER :: nat where "MULTIPLIER = 2"

lemmas readiness_consts = INITIAL_INTERVAL_def MAX_INTERVAL_def MULTIPLIER_def duration_defs

datatype readiness_strategy = ProcessRunning | TcpPort u16 | ExecCommand "string list" | ImageHealthcheck

record health_check =
  hc_test :: "string list"
  hc_interval :: duration
  hc_timeout :: duration
  hc_start_period :: duration

datatype health_status = Healthy | Starting | Unhealthy | NoHealthcheck

record poll_timing =
  pt_initial_interval :: duration
  pt_start_period :: duration
  pt_check_timeout :: "duration option"
  pt_use_backoff :: bool

definition default_timing :: poll_timing where
  "default_timing = \<lparr>pt_initial_interval = INITIAL_INTERVAL, pt_start_period = 0, pt_check_timeout = None, pt_use_backoff = True\<rparr>"

datatype resolved_check = CheckProcess | CheckTcp u16 | CheckExec "string list"

definition json_strings :: "json list \<Rightarrow> string list" where
  "json_strings vs = List.map_filter json_as_str vs"

definition exec_args_of :: "string list \<Rightarrow> string list option" where
  "exec_args_of test =
     (case test of
        [] \<Rightarrow> None
      | t # rest \<Rightarrow>
        if t = ''NONE'' then None
        else if t = ''CMD'' then Some rest
        else if t = ''CMD-SHELL'' then (case rest of [] \<Rightarrow> None | s # _ \<Rightarrow> Some [''/bin/sh'', ''-c'', s])
        else Some test)"

definition nanos_to_dur :: "json \<Rightarrow> string \<Rightarrow> duration \<Rightarrow> duration" where
  "nanos_to_dur hc key dflt = (case Option.bind (json_get key hc) json_as_u64 of Some n \<Rightarrow> n | None \<Rightarrow> dflt)"

definition parse_healthcheck :: "'d platform \<Rightarrow> bytes \<Rightarrow> health_check option" where
  "parse_healthcheck P raw_config =
     Option.bind (sum_ok (json_parse P raw_config)) (\<lambda>v.
     Option.bind (Option.bind (json_get ''config'' v) (json_get ''Healthcheck'')) (\<lambda>hc.
     Option.bind (Option.bind (json_get ''Test'' hc) json_as_array) (\<lambda>tests.
     Option.bind (exec_args_of (json_strings tests)) (\<lambda>exec_args.
       if exec_args = [] then None
       else Some \<lparr>hc_test = exec_args, hc_interval = nanos_to_dur hc ''Interval'' DEFAULT_HC_INTERVAL,
              hc_timeout = nanos_to_dur hc ''Timeout'' DEFAULT_HC_TIMEOUT, hc_start_period = nanos_to_dur hc ''StartPeriod'' 0\<rparr>))))"

definition image_healthcheck :: "'d platform \<Rightarrow> string \<Rightarrow> string \<Rightarrow> ('d, health_check option) op" where
  "image_healthcheck P ns img = bind (get_raw_image_config P ns img) (\<lambda>raw. ret (parse_healthcheck P raw))"

definition resolve_strategy :: "'d platform \<Rightarrow> string \<Rightarrow> string \<Rightarrow> readiness_strategy \<Rightarrow> ('d, resolved_check \<times> poll_timing) op" where
  "resolve_strategy P ns container_id strategy =
     (case strategy of
        ProcessRunning \<Rightarrow> ret (CheckProcess, default_timing)
      | TcpPort port \<Rightarrow> ret (CheckTcp port, default_timing)
      | ExecCommand cmd \<Rightarrow> ret (CheckExec cmd, default_timing)
      | ImageHealthcheck \<Rightarrow>
        bind (inspect_container P ns container_id) (\<lambda>info.
        bind (get_raw_image_config P ns (ci_image info)) (\<lambda>raw_config.
          (case parse_healthcheck P raw_config of
             Some hc \<Rightarrow> ret (CheckExec (hc_test hc), \<lparr>pt_initial_interval = hc_interval hc, pt_start_period = hc_start_period hc,
                              pt_check_timeout = Some (hc_timeout hc), pt_use_backoff = False\<rparr>)
           | None \<Rightarrow> ret (CheckProcess, default_timing)))))"

type_synonym 'd timer = "duration \<Rightarrow> ('d, exec_output) op \<Rightarrow> 'd world \<Rightarrow> exec_output result option \<times> 'd world"
type_synonym 'd connector = "duration \<Rightarrow> u16 \<Rightarrow> 'd world \<Rightarrow> bool \<times> 'd world"
type_synonym shim = "string \<Rightarrow> string \<Rightarrow> fs \<Rightarrow> fs"

definition exit_ok :: "exec_output result \<Rightarrow> bool" where
  "exit_ok r = (case r of Inr out \<Rightarrow> ex_exit_code out = 0 | Inl _ \<Rightarrow> False)"

definition run_check ::
  "'d platform \<Rightarrow> string \<Rightarrow> shim \<Rightarrow> 'd timer \<Rightarrow> 'd connector \<Rightarrow> string \<Rightarrow> resolved_check \<Rightarrow> duration option
    \<Rightarrow> 'd world \<Rightarrow> bool \<times> 'd world" where
  "run_check P ns shim within tcp_connect container_id check check_timeout w =
     (case check of
        CheckProcess \<Rightarrow> (True, w)
      | CheckTcp port \<Rightarrow> tcp_connect TCP_CONNECT_TIMEOUT port w
      | CheckExec command \<Rightarrow>
        (case check_timeout of
           Some t \<Rightarrow> (case within t (exec P ns shim container_id command) w of
             (None, w') \<Rightarrow> (False, w') | (Some r, w') \<Rightarrow> (exit_ok r, w'))
         | None \<Rightarrow> (case exec P ns shim container_id command w of (r, w') \<Rightarrow> (exit_ok r, w'))))"

text \<open>What one round of \<^verbatim>\<open>wait_ready\<close> sees: a result, or that it has to go on.\<close>

definition ready_round ::
  "'d platform \<Rightarrow> string \<Rightarrow> string \<Rightarrow> ('d world \<Rightarrow> bool \<times> 'd world) \<Rightarrow> instant \<Rightarrow> duration \<Rightarrow> 'd world \<Rightarrow> unit result option \<times> 'd world" where
  "ready_round P ns container_id check start timeout w =
     (case inspect_container P ns container_id w of
        (Inl e, w1) \<Rightarrow> (Some (Inl e), w1)
      | (Inr info, w1) \<Rightarrow>
        (case ci_task info of
           None \<Rightarrow> (Some (Inl (TaskNotFound container_id)), w1)
         | Some task \<Rightarrow>
           if ti_status task = Stopped then (Some (Inl (TaskExited container_id)), w1)
           else (case (if ti_status task = Running then check w1 else (False, w1)) of
                   (passed, w2) \<Rightarrow>
                     (if passed then Some (Inr ())
                      else if elapsed P start w2 > timeout
                      then Some (Inl (Timeout (''container '' @ container_id @ '' did not become ready within '' @ show_duration timeout)))
                      else None, w2))))"

definition next_interval :: "bool \<Rightarrow> duration \<Rightarrow> duration" where
  "next_interval use_backoff interval = (if use_backoff then min (interval * MULTIPLIER) MAX_INTERVAL else interval)"

partial_function (option) ready_loop ::
  "'d platform \<Rightarrow> ('d world \<Rightarrow> unit result option \<times> 'd world) \<Rightarrow> bool \<Rightarrow> duration \<Rightarrow> ('d, unit) prog" where
  [code]: "ready_loop P body use_backoff interval w =
     (case body w of (q, w') \<Rightarrow>
        (case q of Some r \<Rightarrow> Some (r, w')
         | None \<Rightarrow> ready_loop P body use_backoff (next_interval use_backoff interval) (sleep_op P interval w')))"

definition wait_ready ::
  "'d platform \<Rightarrow> string \<Rightarrow> shim \<Rightarrow> 'd timer \<Rightarrow> 'd connector \<Rightarrow> string \<Rightarrow> duration \<Rightarrow> readiness_strategy \<Rightarrow> ('d, unit) prog" where
  "wait_ready P ns shim within tcp_connect container_id timeout strategy =
     p_bind (p_lift (resolve_strategy P ns container_id strategy)) (\<lambda>(check, timing) w.
       let w1 = (if pt_start_period timing \<noteq> 0 then sleep_op P (pt_start_period timing) w else w)
       in ready_loop P (ready_round P ns container_id
                          (run_check P ns shim within tcp_connect container_id check (pt_check_timeout timing))
                          (now P (daemon w1)) timeout)
            (pt_use_backoff timing) (pt_initial_interval timing) w1)"

definition classify_probe ::
  "'d platform \<Rightarrow> string \<Rightarrow> string \<Rightarrow> health_check \<Rightarrow> exec_output result option \<Rightarrow> 'd world \<Rightarrow> health_status" where
  "classify_probe P ns container_id hc exec_result w =
     (if (case exec_result of Some r \<Rightarrow> exit_ok r | None \<Rightarrow> False) then Healthy
      else if hc_start_period hc \<noteq> 0 \<and>
        (case task_uptime P ns container_id w of Some e \<Rightarrow> e < hc_start_period hc | None \<Rightarrow> False)
      then Starting else Unhealthy)"

definition probe_health ::
  "'d platform \<Rightarrow> string \<Rightarrow> shim \<Rightarrow> 'd timer \<Rightarrow> string \<Rightarrow> ('d, health_status) op" where
  "probe_health P ns shim within container_id =
     bind (inspect_container P ns container_id) (\<lambda>info.
     bind (get_raw_image_config P ns (ci_image info)) (\<lambda>raw_config.
       case parse_healthcheck P raw_config of
         None \<Rightarrow> ret NoHealthcheck
       | Some hc \<Rightarrow> (\<lambda>w. case within (hc_timeout hc) (exec P ns shim container_id (hc_test hc)) w of
           (exec_result, w') \<Rightarrow> (Inr (classify_probe P ns container_id hc exec_result w'), w'))))"

section \<open>Health checks\<close>

text \<open>A parsed check has a command to run.\<close>

lemma parse_healthcheck_command: "parse_healthcheck P raw = Some hc \<Longrightarrow> hc_test hc \<noteq> []"
  by (auto simp: parse_healthcheck_def bind_eq_Some_conv split: if_splits)

lemma parse_healthcheck_none:
  "json_parse P raw = Inr v \<Longrightarrow> Option.bind (json_get ''config'' v) (json_get ''Healthcheck'') = Some hc
    \<Longrightarrow> json_get ''Test'' hc = Some (JArray (JString ''NONE'' # vs)) \<Longrightarrow> parse_healthcheck P raw = None"
  by (auto simp: parse_healthcheck_def bind_eq_None_conv bind_eq_Some_conv json_as_array_def json_strings_def json_as_str_def
      map_filter_simps exec_args_of_def)

section \<open>The waiting loop\<close>

text \<open>The interval doubles up to two seconds and is never zero when it starts positive.\<close>

lemma backoff_interval: "(next_interval True ^^ n) INITIAL_INTERVAL = min (from_millis (100 * 2 ^ n)) (from_secs 2)"
  by (induction n) (auto simp: next_interval_def readiness_consts min_def)

lemma next_interval_pos: "0 < i \<Longrightarrow> 0 < next_interval b i"
  by (simp add: next_interval_def readiness_consts)

lemma ready_loop_least:
  assumes "ready_loop P body b interval w = Some y"
    and "\<And>i w r w'. body w = (Some r, w') \<Longrightarrow> Q i w (r, w')"
    and "\<And>i w w' y. body w = (None, w') \<Longrightarrow> Q (next_interval b i) (sleep_op P i w') y \<Longrightarrow> Q i w y"
  shows "Q interval w y"
proof -
  let ?R = "\<lambda>((((P', body'), b'), i), v) y. P' = P \<and> body' = body \<and> b' = b \<longrightarrow> Q i v y"
  have "?R ((((P, body), b), interval), w) y"
  proof (rule ready_loop.raw_induct [OF _ assms(1), where Pa = ?R], goal_cases)
    case (1 rl P' body' b' i v z)
    show ?case
    proof (clarify)
      assume eq: "P' = P" "body' = body" "b' = b"
      obtain q v' where q: "body v = (q, v')" by fastforce
      with 1(2) 1(1) [of P body b "next_interval b i" "sleep_op P i v'" z] eq assms(2,3) [of v]
      show "Q i v z" by (cases q) auto
    qed
  qed
  then show ?thesis by simp
qed

interpretation awaiting: sleeping_loop P "ready_loop P body b" body "\<lambda>i. i" "next_interval b" for P body b
proof unfold_locales
  show "Q i w y" if "ready_loop P body b i w = Some y" "\<And>i w r w'. body w = (Some r, w') \<Longrightarrow> Q i w (r, w')"
    "\<And>i w w' y. body w = (None, w') \<Longrightarrow> Q (next_interval b i) (sleep_op P i w') y \<Longrightarrow> Q i w y" for Q i w y
    using that by (rule ready_loop_least)
qed (rule ready_loop.simps)

section \<open>Checks do not turn the clock back\<close>

lemma keeps_exec_counter:
  "(\<And>n. keeps I (m n)) \<Longrightarrow> keeps I (\<lambda>w. m (exec_counter w) (w\<lparr>exec_counter := exec_counter w + 1\<rparr>))"
  by (simp add: keeps_def)

lemma keeps_create_io_dir: "keeps I (create_io_dir P)"
proof -
  have e: "keeps I (exec_file x f)" for x f unfolding exec_file_def by (intro keeps_intros)
  show ?thesis
    unfolding create_io_dir_def Let_def generate_exec_id_def prod.case
    by (rule keeps_intros e keeps_exec_counter)+
qed

lemma keeps_exec:
  assumes "calls_keep P ns A I"
  shows "keeps I (exec P ns shim c cmd)"
proof -
  have d: "keeps I (exec_in_dir P ns shim c cmd m (''exec-'' @ i) so se)" for m i so se
    unfolding exec_in_dir_def Let_def case_prod_beta by (intro keeps_intros keeps_inspect [OF assms] calls_keepD [OF assms]) simp
  show ?thesis
    unfolding exec_def exec_with_opts_def generate_exec_id_def case_prod_beta fst_conv snd_conv
    by (rule keeps_if keeps_fail keeps_exec_counter keeps_bind keeps_try keeps_create_io_dir d keeps_fun | simp)+
qed

lemma keeps_get_raw_config:
  "calls_keep P ns A I \<Longrightarrow> keeps I (get_raw_image_config P ns img)"
  unfolding get_raw_image_config_def by (intro keeps_intros calls_keepD)

lemma keeps_resolve_strategy:
  assumes "calls_keep P ns A I"
  shows "keeps I (resolve_strategy P ns c strategy)"
proof -
  have "keeps I (case parse_healthcheck P raw of Some hc \<Rightarrow> ret (f hc) | None \<Rightarrow> ret x)" for raw f x
    by (cases "parse_healthcheck P raw") (auto intro: keeps_intros)
  then show ?thesis
    unfolding resolve_strategy_def
    by (cases strategy) (simp_all only: readiness_strategy.case, (rule keeps_intros keeps_inspect keeps_get_raw_config assms | assumption)+)
qed

text \<open>What the waiting loop relies on in the runtime: neither combinator turns the clock back.\<close>

definition runtime_steady :: "'d platform \<Rightarrow> 'd timer \<Rightarrow> 'd connector \<Rightarrow> bool" where
  "runtime_steady P within tcp_connect \<longleftrightarrow>
     (\<forall>d m. steady P m \<longrightarrow> steady P (within d m)) \<and> (\<forall>d p. steady P (tcp_connect d p))"

lemma run_check_steady:
  assumes "clock_monotone P ns" "runtime_steady P within tcp_connect"
  shows "steady P (run_check P ns shim within tcp_connect c check ct)"
proof -
  have e: "steady P (exec P ns shim c cmd)" for cmd
    by (rule steadyI) (rule keeps_exec [OF clock_monotoneD [OF assms(1)]])
  then have "steady P (within d (exec P ns shim c cmd))" "steady P (tcp_connect d p)" for d cmd p
    using assms(2) by (auto simp: runtime_steady_def)
  with e show ?thesis
    by (auto simp: steady_def run_check_def split: resolved_check.split option.split prod.split) (metis snd_conv)+
qed

lemma ready_round_steady:
  assumes "clock_monotone P ns" "steady P check"
  shows "steady P (ready_round P ns c check start timeout)"
proof -
  have i: "now P (daemon w) \<le> now P (daemon w1)" if "inspect_container P ns c w = (r, w1)" for w r w1
    using steadyD [OF steadyI [OF keeps_inspect [OF clock_monotoneD [OF assms(1)]]], of w c] that by simp
  have ch: "now P (daemon w1) \<le> now P (daemon w2)" if "check w1 = (b, w2)" for w1 b w2
    using steadyD [OF assms(2), of w1] that by simp
  show ?thesis
    unfolding steady_def ready_round_def
    by (auto split: prod.split sum.split option.split dest!: i ch intro: order_trans)
qed

lemma ready_round_deadline:
  assumes "clock_monotone P ns" "steady P check" "start + timeout < now P (daemon v)"
  shows "fst (ready_round P ns c check start timeout v) \<noteq> None"
proof -
  have "now P (daemon v) \<le> now P (daemon (snd (ready_round P ns c check start timeout v)))"
    by (rule steadyD [OF ready_round_steady [OF assms(1,2)]])
  with assms(3) show ?thesis
    by (auto simp: ready_round_def elapsed_def split: prod.splits sum.splits option.splits if_splits)
qed

section \<open>Properties\<close>

text \<open>What the round that ends the wait has seen.\<close>

definition saw_ready ::
  "'d platform \<Rightarrow> string \<Rightarrow> string \<Rightarrow> ('d world \<Rightarrow> bool \<times> 'd world) \<Rightarrow> 'd world \<Rightarrow> bool" where
  "saw_ready P ns c check w' \<longleftrightarrow> (\<exists>v info v1 t. inspect_container P ns c v = (Inr info, v1) \<and> ci_task info = Some t
     \<and> ti_status t = Running \<and> check v1 = (True, w'))"

lemma ready_round_ok: "ready_round P ns c check start timeout v = (Some (Inr ()), w') \<Longrightarrow> saw_ready P ns c check w'"
  by (fastforce simp: ready_round_def saw_ready_def split: prod.splits sum.splits option.splits if_splits)

lemma ready_round_error:
  assumes "ready_round P ns c check start timeout v = (Some (Inl e), w')"
  shows "(\<exists>v. inspect_container P ns c v = (Inl e, w')) \<or> e = TaskNotFound c \<or> e = TaskExited c
    \<or> (\<exists>m. e = Timeout m) \<and> start + timeout < now P (daemon w')"
  using assms by (auto simp: ready_round_def elapsed_def split: prod.splits sum.splits option.splits if_splits)

lemma wait_ready_runs:
  assumes "clock_sleeps P" "clock_monotone P ns" "runtime_steady P within tcp_connect"
    and "resolve_strategy P ns c strategy w = (Inr (check, timing), v)" "0 < pt_initial_interval timing"
  obtains r w' u start where "wait_ready P ns shim within tcp_connect c timeout strategy w = Some (r, w')"
    "ready_round P ns c (run_check P ns shim within tcp_connect c check (pt_check_timeout timing)) start timeout u = (Some r, w')"
    "now P (daemon w) \<le> start" "now P (daemon w) \<le> now P (daemon w')"
proof -
  let ?check = "run_check P ns shim within tcp_connect c check (pt_check_timeout timing)"
  define v1 where "v1 = (if pt_start_period timing \<noteq> 0 then sleep_op P (pt_start_period timing) v else v)"
  let ?body = "ready_round P ns c ?check (now P (daemon v1)) timeout"
  have "now P (daemon w) \<le> now P (daemon v)"
    using steadyD [OF steadyI [OF keeps_resolve_strategy [OF clock_monotoneD [OF assms(2)]]], of w c strategy] assms(4) by simp
  also have "\<dots> \<le> now P (daemon v1)" using sleep_op_now [OF assms(1), of v "pt_start_period timing"] by (simp add: v1_def)
  finally have t: "now P (daemon w) \<le> now P (daemon v1)" .
  note check = run_check_steady [OF assms(2,3)]
  obtain r w' where r: "ready_loop P ?body (pt_use_backoff timing) (pt_initial_interval timing) v1 = Some (r, w')"
    and t': "now P (daemon v1) \<le> now P (daemon w')"
    using awaiting.loop_returns [OF assms(1) ready_round_steady [OF assms(2) check] assms(5) next_interval_pos ready_round_deadline [OF assms(2) check]]
    by blast
  then have "wait_ready P ns shim within tcp_connect c timeout strategy w = Some (r, w')"
    using assms(4) by (simp add: wait_ready_def p_lift_def Let_def v1_def p_bind_def)
  moreover obtain u where "?body u = (Some r, w')" by (rule awaiting.loop_outcome [OF r])
  ultimately show thesis using that t order_trans [OF t t'] by blast
qed


definition no_timer :: "'d timer" where
  "no_timer d m w = (case m w of (r, w') \<Rightarrow> (Some r, w'))"

definition no_listener :: "'d connector" where
  "no_listener d p w = (False, w)"

lemma no_timer_steady: "runtime_steady P no_timer no_listener"
  by (simp add: runtime_steady_def steady_def no_timer_def no_listener_def case_prod_beta)


section \<open>Probes\<close>

text \<open>
  \<open>Starting\<close> is only ever answered for a failed check of a task whose start this client recorded, and
  only while the start period of the image lasts.
\<close>

lemma probe_health_starting:
  assumes "probe_health P ns shim within c w = (Inr Starting, w')"
  shows "\<exists>(hc :: health_check) e. task_uptime P ns c w' = Some e \<and> e < hc_start_period hc \<and> hc_test hc \<noteq> []
    \<and> (\<exists>v q. within (hc_timeout hc) (exec P ns shim c (hc_test hc)) v = (q, w') \<and> (\<forall>r. q = Some r \<longrightarrow> \<not> exit_ok r))"
proof -
  from assms obtain raw v2 where r: "(case parse_healthcheck P raw of
         None \<Rightarrow> ret NoHealthcheck
       | Some hc \<Rightarrow> (\<lambda>w. case within (hc_timeout hc) (exec P ns shim c (hc_test hc)) w of
           (r, w') \<Rightarrow> (Inr (classify_probe P ns c hc r w'), w'))) v2 = (Inr Starting, w')"
    unfolding probe_health_def by (elim bindE) auto
  from r obtain hc where hc: "parse_healthcheck P raw = Some hc" by (auto split: option.splits)
  obtain q v3 where q: "within (hc_timeout hc) (exec P ns shim c (hc_test hc)) v2 = (q, v3)" by fastforce
  with r hc have f: "\<forall>r. q = Some r \<longrightarrow> \<not> exit_ok r" "v3 = w'"
    and e: "\<exists>e. task_uptime P ns c w' = Some e \<and> e < hc_start_period hc"
    by (auto simp: classify_probe_def split: if_splits option.splits)
  then show ?thesis using q parse_healthcheck_command [OF hc] by blast
qed

end
