(* ===== verification/Exit_Watcher.thy ===== *)
theory Exit_Watcher
  imports Inspect
begin

text \<open>
  The background watcher of \<^verbatim>\<open>Client::container_logs_stream_until_exit\<close> (src/src/client.rs), which signals
  a log follower to stop once the task of its container has exited.

  Each round of its loop sleeps, unless the follower was dropped meanwhile, and then inspects the
  container. The rounds are a list of what they saw; \<open>watch_round\<close> runs a round on the daemon.
\<close>

section \<open>Model\<close>

definition WATCH_BASE_INTERVAL :: duration where "WATCH_BASE_INTERVAL = from_millis 250"
definition WATCH_MAX_INTERVAL :: duration where "WATCH_MAX_INTERVAL = from_secs 5"
definition WATCH_MAX_CONSECUTIVE_ERRORS :: nat where "WATCH_MAX_CONSECUTIVE_ERRORS = 60"

record watch_state =
  ws_interval :: duration
  ws_consecutive_errors :: nat

definition watch_init :: watch_state where
  "watch_init = \<lparr>ws_interval = WATCH_BASE_INTERVAL, ws_consecutive_errors = 0\<rparr>"

text \<open>\<open>Dropped\<close> and \<open>Signalled\<close> are the two returns of the task.\<close>

datatype watch_outcome = Dropped | Signalled | Watching watch_state

definition watch_inspected :: "container_info result \<Rightarrow> watch_state \<Rightarrow> watch_outcome" where
  "watch_inspected r s =
     (case r of
        Inr info \<Rightarrow>
          (if map_option ti_status (ci_task info) = Some Stopped then Signalled
           else Watching \<lparr>ws_interval = WATCH_BASE_INTERVAL, ws_consecutive_errors = 0\<rparr>)
      | Inl (ContainerNotFound _) \<Rightarrow> Signalled
      | Inl e \<Rightarrow>
          (let n = ws_consecutive_errors s + 1
           in if n \<ge> WATCH_MAX_CONSECUTIVE_ERRORS then Signalled
              else Watching \<lparr>ws_interval = min (ws_interval s * 2) WATCH_MAX_INTERVAL, ws_consecutive_errors = n\<rparr>))"

text \<open>\<open>None\<close> is a round in which the follower was dropped before the sleep was over.\<close>

definition watch_step :: "container_info result option \<Rightarrow> watch_state \<Rightarrow> watch_outcome" where
  "watch_step ev s = (case ev of None \<Rightarrow> Dropped | Some r \<Rightarrow> watch_inspected r s)"

fun watch :: "watch_state \<Rightarrow> container_info result option list \<Rightarrow> watch_outcome" where
  "watch s [] = Watching s"
| "watch s (ev # evs) = (case watch_step ev s of Watching s' \<Rightarrow> watch s' evs | q \<Rightarrow> q)"

definition watch_round ::
  "'d platform \<Rightarrow> string \<Rightarrow> string \<Rightarrow> ('d world \<Rightarrow> bool) \<Rightarrow> watch_state \<Rightarrow> 'd world \<Rightarrow> watch_outcome \<times> 'd world" where
  "watch_round P ns container_id closed s w =
     (let w1 = sleep_op P (ws_interval s) w
      in if closed w1 then (watch_step None s, w1)
         else (case inspect_container P ns container_id w1 of (r, w2) \<Rightarrow> (watch_step (Some r) s, w2)))"

section \<open>When the watcher signals\<close>

text \<open>A round that ends the watch by what it saw, and a round that failed otherwise.\<close>

definition exit_seen :: "container_info result option \<Rightarrow> bool" where
  "exit_seen ev = (case ev of
      Some (Inr info) \<Rightarrow> map_option ti_status (ci_task info) = Some Stopped
    | Some (Inl (ContainerNotFound _)) \<Rightarrow> True | _ \<Rightarrow> False)"

definition failed_round :: "container_info result option \<Rightarrow> bool" where
  "failed_round ev = (case ev of Some (Inl e) \<Rightarrow> \<not> exit_seen ev | _ \<Rightarrow> False)"

lemma exit_seen_simps [simp]:
  "exit_seen None = False" "exit_seen (Some (Inr info)) = (map_option ti_status (ci_task info) = Some Stopped)"
  by (simp_all add: exit_seen_def)

lemma watch_step_simps:
  "exit_seen ev \<Longrightarrow> watch_step ev s = Signalled"
  "failed_round ev \<Longrightarrow> watch_step ev s =
     (if ws_consecutive_errors s + 1 \<ge> WATCH_MAX_CONSECUTIVE_ERRORS then Signalled
      else Watching \<lparr>ws_interval = min (ws_interval s * 2) WATCH_MAX_INTERVAL, ws_consecutive_errors = ws_consecutive_errors s + 1\<rparr>)"
  "ev \<noteq> None \<Longrightarrow> \<not> exit_seen ev \<Longrightarrow> \<not> failed_round ev \<Longrightarrow> watch_step ev s = Watching watch_init"
  by (auto simp: watch_step_def watch_inspected_def exit_seen_def failed_round_def watch_init_def Let_def
      split: option.splits sum.splits error.splits)

lemma watch_append: "watch s (xs @ ys) = (case watch s xs of Watching s' \<Rightarrow> watch s' ys | q \<Rightarrow> q)"
  by (induction s xs rule: watch.induct) (auto split: watch_outcome.split)

lemma watch_errors_bounded:
  "watch s evs = Watching s' \<Longrightarrow> ws_consecutive_errors s < WATCH_MAX_CONSECUTIVE_ERRORS \<Longrightarrow> ws_consecutive_errors s' < WATCH_MAX_CONSECUTIVE_ERRORS"
proof (induction s evs rule: watch.induct)
  case (2 s ev evs)
  then obtain t where t: "watch_step ev s = Watching t" by (auto split: watch_outcome.splits)
  then have "ws_consecutive_errors t < WATCH_MAX_CONSECUTIVE_ERRORS"
    by (auto simp: watch_step_def watch_inspected_def Let_def WATCH_MAX_CONSECUTIVE_ERRORS_def
        split: option.splits sum.splits error.splits if_splits)
  with 2 t show ?case by simp
qed simp

lemma watch_not_dropped: "\<forall>ev \<in> set evs. ev \<noteq> None \<Longrightarrow> watch s evs \<noteq> Dropped"
proof (induction s evs rule: watch.induct)
  case (2 s ev evs)
  have "watch_inspected r s \<noteq> Dropped" for r
    by (auto simp: watch_inspected_def Let_def split: sum.split error.split)
  with 2 show ?case by (auto simp: watch_step_def split: watch_outcome.split)
qed simp

lemma watch_fails:
  "list_all failed_round ys \<Longrightarrow> ws_consecutive_errors s < WATCH_MAX_CONSECUTIVE_ERRORS
    \<Longrightarrow> WATCH_MAX_CONSECUTIVE_ERRORS \<le> ws_consecutive_errors s + length ys \<Longrightarrow> watch s ys = Signalled"
  by (induction ys arbitrary: s) (auto simp: watch_step_simps)

text \<open>Sixty failed rounds in a row.\<close>

definition long_failure :: "container_info result option list \<Rightarrow> bool" where
  "long_failure evs \<longleftrightarrow>
     (\<exists>xs ys zs. evs = xs @ ys @ zs \<and> length ys = WATCH_MAX_CONSECUTIVE_ERRORS \<and> list_all failed_round ys)"

lemma long_failure_append: "long_failure evs \<Longrightarrow> long_failure (pre @ evs)"
  unfolding long_failure_def by (metis append.assoc)

lemma watch_signals_long:
  assumes "watch s evs = Signalled" "list_all (\<lambda>ev. \<not> exit_seen ev) evs" "list_all failed_round pre"
    "length pre = ws_consecutive_errors s" "ws_consecutive_errors s < WATCH_MAX_CONSECUTIVE_ERRORS"
  shows "long_failure (pre @ evs)"
  using assms
proof (induction evs arbitrary: s pre)
  case (Cons ev evs)
  show ?case
  proof (cases "failed_round ev")
    case f: True
    show ?thesis
    proof (cases "ws_consecutive_errors s + 1 \<ge> WATCH_MAX_CONSECUTIVE_ERRORS")
      case True
      then have "length (pre @ [ev]) = WATCH_MAX_CONSECUTIVE_ERRORS" "list_all failed_round (pre @ [ev])"
        using Cons.prems f by simp_all
      then show ?thesis unfolding long_failure_def by (intro exI [of _ "[]"] exI [of _ "pre @ [ev]"] exI [of _ evs]) simp
    next
      case False
      let ?s = "\<lparr>ws_interval = min (ws_interval s * 2) WATCH_MAX_INTERVAL, ws_consecutive_errors = ws_consecutive_errors s + 1\<rparr>"
      have "watch ?s evs = Signalled" using Cons.prems(1) f False by (simp add: watch_step_simps)
      from Cons.IH [OF this, of "pre @ [ev]"] Cons.prems f False show ?thesis by simp
    qed
  next
    case False
    then have "ev \<noteq> None" using Cons.prems(1) by (cases ev) (simp_all add: watch_step_def)
    then have "watch watch_init evs = Signalled"
      using Cons.prems False by (simp add: watch_step_simps)
    from Cons.IH [OF this, of "[]"] Cons.prems have "long_failure evs"
      by (simp add: watch_init_def WATCH_MAX_CONSECUTIVE_ERRORS_def)
    then show ?thesis using long_failure_append [of evs "pre @ [ev]"] by simp
  qed
qed simp

text \<open>The time the watcher sleeps before it sees the rounds.\<close>

fun watch_slept :: "watch_state \<Rightarrow> container_info result option list \<Rightarrow> duration" where
  "watch_slept s [] = 0"
| "watch_slept s (ev # evs) = ws_interval s + (case watch_step ev s of Watching s' \<Rightarrow> watch_slept s' evs | _ \<Rightarrow> 0)"

fun backoff_total :: "nat \<Rightarrow> duration \<Rightarrow> duration" where
  "backoff_total 0 i = 0"
| "backoff_total (Suc n) i = i + backoff_total n (min (i * 2) WATCH_MAX_INTERVAL)"

lemma watch_slept_failures:
  "list_all failed_round ys \<Longrightarrow> ws_consecutive_errors s + length ys \<le> WATCH_MAX_CONSECUTIVE_ERRORS
    \<Longrightarrow> watch_slept s ys = backoff_total (length ys) (ws_interval s)"
proof (induction ys arbitrary: s)
  case (Cons y ys)
  let ?t = "\<lparr>ws_interval = min (ws_interval s * 2) WATCH_MAX_INTERVAL, ws_consecutive_errors = Suc (ws_consecutive_errors s)\<rparr>"
  have "ys = [] \<or> watch_slept ?t ys = backoff_total (length ys) (ws_interval ?t)" using Cons.IH [of ?t] Cons.prems by simp
  moreover have "ys = []" if "WATCH_MAX_CONSECUTIVE_ERRORS \<le> Suc (ws_consecutive_errors s)" using that Cons.prems by (cases ys) simp_all
  ultimately show ?case using Cons.prems by (auto simp: watch_step_simps)
qed simp

lemma backoff_total_numeral:
  "backoff_total (numeral k) i = i + backoff_total (pred_numeral k) (min (i * 2) WATCH_MAX_INTERVAL)"
  by (simp add: numeral_eq_Suc)

text \<open>
  C39: While the rounds of the watcher show neither a stopped task nor a missing container and the
  follower is not dropped, the watcher ends the stream exactly when 60 rounds in a row have failed.
  Those 60 rounds, started from the base interval, sleep for 282.75 seconds in total.
\<close>

theorem watcher_gives_up:
  assumes "list_all (\<lambda>ev. ev \<noteq> None \<and> \<not> exit_seen ev) evs"
  shows "(watch watch_init evs = Signalled \<longleftrightarrow> long_failure evs)
    \<and> (list_all failed_round evs \<and> length evs = 60 \<longrightarrow> watch_slept watch_init evs = from_millis 282750)"
proof (intro conjI impI iffI)
  have z: "ws_consecutive_errors watch_init < WATCH_MAX_CONSECUTIVE_ERRORS" "ws_consecutive_errors watch_init = 0"
    by (simp_all add: watch_init_def WATCH_MAX_CONSECUTIVE_ERRORS_def)
  show "long_failure evs" if "watch watch_init evs = Signalled"
    using watch_signals_long [OF that, of "[]"] assms z by (simp add: list_all_iff)
  show "watch watch_init evs = Signalled" if "long_failure evs"
  proof -
    from that obtain xs ys zs where e: "evs = xs @ ys @ zs" "length ys = WATCH_MAX_CONSECUTIVE_ERRORS" "list_all failed_round ys"
      unfolding long_failure_def by blast
    have "watch watch_init xs \<noteq> Dropped" using assms e(1) by (intro watch_not_dropped) (auto simp: list_all_iff)
    moreover have "watch s ys = Signalled" if "watch watch_init xs = Watching s" for s
      using watch_fails [OF e(3) watch_errors_bounded [OF that z(1)]] e(2) by simp
    ultimately show ?thesis unfolding e(1) by (auto simp: watch_append split: watch_outcome.split)
  qed
  show "watch_slept watch_init evs = from_millis 282750" if "list_all failed_round evs \<and> length evs = 60"
  proof -
    have "watch_slept watch_init evs = backoff_total 60 WATCH_BASE_INTERVAL"
      using watch_slept_failures [of evs watch_init] that z by (simp add: watch_init_def WATCH_MAX_CONSECUTIVE_ERRORS_def)
    also have "\<dots> = from_millis 282750"
      by (simp add: backoff_total_numeral WATCH_BASE_INTERVAL_def WATCH_MAX_INTERVAL_def duration_defs)
    finally show ?thesis .
  qed
qed

theorem watcher_gives_up_witness:
  "watch watch_init (replicate 60 (Some (Inl (Timeout [])))) = Signalled
   \<and> watch_slept watch_init (replicate 60 (Some (Inl (Timeout [])))) = from_millis 282750"
proof -
  let ?evs = "replicate 60 (Some (Inl (Timeout []))) :: container_info result option list"
  have f: "list_all failed_round ?evs" "list_all (\<lambda>ev. ev \<noteq> None \<and> \<not> exit_seen ev) ?evs"
    by (simp_all add: list_all_iff failed_round_def exit_seen_def)
  then have "long_failure ?evs"
    unfolding long_failure_def WATCH_MAX_CONSECUTIVE_ERRORS_def
    by (intro exI [of _ "[]"] exI [of _ ?evs]) simp
  with watcher_gives_up [OF f(2)] f(1) show ?thesis by simp
qed

text \<open>A container whose task was deleted is watched for ever: neither of the two ends is ever seen.\<close>

lemma watcher_misses_deleted_task:
  assumes "\<forall>ev \<in> set evs. \<exists>info. ev = Some (Inr info) \<and> ci_task info = None"
  shows "\<exists>s. watch s0 evs = Watching s"
  using assms by (induction s0 evs rule: watch.induct) (auto simp: watch_step_def watch_inspected_def)

end
