(* ===== verification/Log_Follower.thy ===== *)
theory Log_Follower
  imports Log_Tailer
begin

text \<open>
  The live follower of src/src/logs.rs (lines 330-673): \<^verbatim>\<open>poll_events_once\<close> reads what was appended to
  \<^verbatim>\<open>events.log\<close> since the last poll, \<^verbatim>\<open>drain_rotated_remainder\<close> finishes a file that the tailer has
  renamed meanwhile, \<^verbatim>\<open>follow_loop\<close> repeats the poll.

  The channel keeps what was sent, and how many more sends succeed before the receiver is dropped
  (\<open>None\<close>: it is not dropped); a full channel only delays the sender. The poll takes two snapshots of
  the live file, its length and then its bytes; \<open>mid\<close> is what other processes do in between.

  The interface \<open>incremental_decoder\<close> is what the follower relies on: decoding what is new after the
  undecided rest of what is old is decoding it all. The codec provides it. With it, a follower that
  polls a growing file sends exactly the records a bulk read of the file returns.
\<close>

section \<open>Model\<close>

definition FOLLOW_INTERVAL :: duration where "FOLLOW_INTERVAL = from_millis 100"
definition FOLLOW_CHANNEL_CAP :: nat where "FOLLOW_CHANNEL_CAP = 256"

record chan =
  ch_sent :: "log_entry result list"
  ch_budget :: "nat option"

definition chan_send :: "log_entry result \<Rightarrow> chan \<Rightarrow> bool \<times> chan" where
  "chan_send x ch =
     (case ch_budget ch of
        None \<Rightarrow> (True, ch\<lparr>ch_sent := ch_sent ch @ [x]\<rparr>)
      | Some 0 \<Rightarrow> (False, ch)
      | Some (Suc n) \<Rightarrow> (True, ch\<lparr>ch_sent := ch_sent ch @ [x], ch_budget := Some n\<rparr>))"

fun send_all :: "log_entry list \<Rightarrow> chan \<Rightarrow> bool \<times> chan" where
  "send_all [] ch = (True, ch)"
| "send_all (e # es) ch =
     (case chan_send (Inr e) ch of (True, ch') \<Rightarrow> send_all es ch' | (False, ch') \<Rightarrow> (False, ch'))"

datatype poll_outcome = Continue | ReceiverDropped | Fatal error

record events_tail_state =
  et_pos :: nat
  et_leftover :: bytes
  et_inode :: "nat option"

definition events_tail_default :: events_tail_state where
  "events_tail_default = \<lparr>et_pos = 0, et_leftover = [], et_inode = None\<rparr>"

definition drain_rotated_remainder ::
  "string \<Rightarrow> nat \<Rightarrow> nat \<Rightarrow> chan \<Rightarrow> fs \<Rightarrow> poll_outcome \<times> chan \<times> fs" where
  "drain_rotated_remainder rotated prev_inode prev_pos tx f =
     (case fs_open rotated f of
        (Inl k, f1) \<Rightarrow> if k = Kind_NotFound then (Continue, tx, f1)
                      else (Fatal (Io ''follow: open rotated events'' k), tx, f1)
      | (Inr i, f1) \<Rightarrow>
        (case handle_len i f1 of
           (Inl k, f2) \<Rightarrow> (Fatal (Io ''follow: stat rotated events'' k), tx, f2)
         | (Inr end_len, f2) \<Rightarrow>
           if i \<noteq> prev_inode then (Continue, tx, f2)
           else if end_len \<le> prev_pos then (Continue, tx, f2)
           else (case handle_seek i f2 of
             (Inl k, f3) \<Rightarrow> (Fatal (Io ''follow: seek rotated events'' k), tx, f3)
           | (Inr _, f3) \<Rightarrow>
             (let want = min (end_len - prev_pos) ROTATED_DRAIN_MAX_BYTES in
              case handle_read i prev_pos (Some want) f3 of
                (Inl k, f4) \<Rightarrow> (Fatal (Io ''follow: read rotated events'' k), tx, f4)
              | (Inr buf, f4) \<Rightarrow>
                (case send_all (parse_events_file buf) tx of
                   (True, tx') \<Rightarrow> (Continue, tx', f4)
                 | (False, tx') \<Rightarrow> (ReceiverDropped, tx', f4))))))"

text \<open>The decode loop of the poll: the cursor, and whether every send succeeded.\<close>

function follow_decode :: "bytes \<Rightarrow> nat \<Rightarrow> chan \<Rightarrow> bool \<times> nat \<times> chan" where
  "follow_decode bs cursor tx =
     (if cursor < length bs then
       (case decode_event_with_len (drop cursor bs) of
          Record entry consumed \<Rightarrow>
            (case chan_send (Inr entry) tx of
               (True, tx') \<Rightarrow> follow_decode bs (cursor + consumed) tx'
             | (False, tx') \<Rightarrow> (False, cursor, tx'))
        | NeedMore \<Rightarrow> (True, cursor, tx)
        | Malformed \<Rightarrow>
            (case resync_offset (drop cursor bs) of
               Some skip \<Rightarrow> follow_decode bs (cursor + skip) tx
             | None \<Rightarrow> (True, cursor, tx)))
      else (True, cursor, tx))"
  by pat_completeness auto
termination
  by (relation "measure (\<lambda>(bs, cursor, tx). length bs - cursor)")
    (auto dest!: decode_Record_length resync_offset_length)

declare follow_decode.simps [simp del]

definition stuck :: "bytes \<Rightarrow> bool" where
  "stuck remainder \<longleftrightarrow> length remainder > MAX_RECORD_BYTES \<and> newline \<notin> set remainder"

text \<open>Whether the file was replaced or cut; the rotated remainder is sent first.\<close>

definition follow_reset ::
  "string \<Rightarrow> nat \<Rightarrow> nat \<Rightarrow> events_tail_state \<Rightarrow> chan \<Rightarrow> fs \<Rightarrow> poll_outcome \<times> events_tail_state \<times> chan \<times> fs" where
  "follow_reset path inode len st tx f =
     (case et_inode st of
        Some prev_inode \<Rightarrow>
          if prev_inode \<noteq> inode then
            (case drain_rotated_remainder (with_extension path ''log.1'') prev_inode (et_pos st) tx f of
               (Continue, tx', f') \<Rightarrow> (Continue, st\<lparr>et_pos := 0, et_leftover := [], et_inode := Some inode\<rparr>, tx', f')
             | (out, tx', f') \<Rightarrow> (out, st, tx', f'))
          else if len < et_pos st
          then (Continue, st\<lparr>et_pos := 0, et_leftover := [], et_inode := Some inode\<rparr>, tx, f)
          else (Continue, st\<lparr>et_inode := Some inode\<rparr>, tx, f)
      | None \<Rightarrow>
          if len < et_pos st
          then (Continue, st\<lparr>et_pos := 0, et_leftover := [], et_inode := Some inode\<rparr>, tx, f)
          else (Continue, st\<lparr>et_inode := Some inode\<rparr>, tx, f))"

definition poll_events_once ::
  "string \<Rightarrow> (fs \<Rightarrow> fs) \<Rightarrow> events_tail_state \<Rightarrow> chan \<Rightarrow> fs \<Rightarrow> poll_outcome \<times> events_tail_state \<times> chan \<times> fs" where
  "poll_events_once path mid st tx f =
     (case fs_open path f of
        (Inl k, f1) \<Rightarrow>
          if k = Kind_NotFound
          then (Continue, if et_inode st = None then st\<lparr>et_pos := 0, et_leftover := []\<rparr> else st, tx, f1)
          else (Fatal (Io ''follow: open events'' k), st, tx, f1)
      | (Inr inode, f1) \<Rightarrow>
        (case handle_len inode f1 of
           (Inl k, f2) \<Rightarrow> (Fatal (Io ''follow: stat events'' k), st, tx, f2)
         | (Inr len, f2) \<Rightarrow>
           (case follow_reset path inode len st tx f2 of
              (Continue, st1, tx1, f3) \<Rightarrow>
                if len = et_pos st1 then (Continue, st1, tx1, f3)
                else (case handle_seek inode f3 of
                  (Inl k, f4) \<Rightarrow> (Fatal (Io ''follow: seek events'' k), st1, tx1, f4)
                | (Inr _, f4) \<Rightarrow>
                  (let st2 = st1\<lparr>et_leftover := []\<rparr> in
                   case handle_read inode (et_pos st1) None (mid f4) of
                     (Inl k, f5) \<Rightarrow> (Fatal (Io ''follow: read events'' k), st2, tx1, f5)
                   | (Inr new, f5) \<Rightarrow>
                     (let bs = et_leftover st1 @ new; st3 = st2\<lparr>et_pos := len\<rparr> in
                      case follow_decode bs 0 tx1 of
                        (False, _, tx2) \<Rightarrow> (ReceiverDropped, st3, tx2, f5)
                      | (True, cursor, tx2) \<Rightarrow>
                        (let remainder = drop cursor bs
                         in (Continue, st3\<lparr>et_leftover := (if stuck remainder then [] else remainder)\<rparr>, tx2, f5)))))
            | other \<Rightarrow> other)))"

record follow_round =
  fr_env :: "fs \<Rightarrow> fs"
  fr_mid :: "fs \<Rightarrow> fs"
  fr_wake :: wake
  fr_final_env :: "fs \<Rightarrow> fs"

fun follow_loop ::
  "string \<Rightarrow> follow_round list \<Rightarrow> events_tail_state \<Rightarrow> chan \<Rightarrow> fs \<Rightarrow> bool \<times> events_tail_state \<times> chan \<times> fs" where
  "follow_loop path [] st tx f = (True, st, tx, f)"
| "follow_loop path (r # rs) st tx f =
     (case poll_events_once path (fr_mid r) st tx (fr_env r f) of
        (ReceiverDropped, st1, tx1, f1) \<Rightarrow> (False, st1, tx1, f1)
      | (Fatal e, st1, tx1, f1) \<Rightarrow> (False, st1, snd (chan_send (Inl e) tx1), f1)
      | (Continue, st1, tx1, f1) \<Rightarrow>
        (case fr_wake r of
           Slept \<Rightarrow> follow_loop path rs st1 tx1 f1
         | Stop_signal \<Rightarrow>
           (case poll_events_once path (fr_mid r) st1 tx1 (fr_final_env r f1) of
              (_, st2, tx2, f2) \<Rightarrow> (False, st2, tx2, f2))))"

section \<open>Decoding in pieces\<close>

text \<open>
  What a reader of a growing byte stream relies on: \<open>run\<close> returns the items decided so far and the
  undecided rest, and the rest with what comes next decides the remainder.
\<close>

locale incremental_decoder =
  fixes run :: "'b list \<Rightarrow> 'e list \<times> 'b list"
  assumes run_append: "run (xs @ ys) = (fst (run xs) @ fst (run (snd (run xs) @ ys)), snd (run (snd (run xs) @ ys)))"
begin

fun feed :: "'b list list \<Rightarrow> 'e list \<times> 'b list \<Rightarrow> 'e list \<times> 'b list" where
  "feed [] acc = acc"
| "feed (c # cs) (es, rest) = feed cs (es @ fst (run (rest @ c)), snd (run (rest @ c)))"

lemma run_feed: "feed cs (run s) = run (s @ concat cs)"
proof (induction cs arbitrary: s)
  case (Cons c cs)
  have "feed (c # cs) (run s) = feed cs (run (s @ c))"
    using run_append [of s c] by (cases "run s") simp
  with Cons.IH [of "s @ c"] show ?case by simp
qed simp

lemma run_resume:
  assumes "run s = (es, rest)"
  shows "run (s @ t) = (es @ fst (run (rest @ t)), snd (run (rest @ t)))"
  using run_append [of s t] assms by simp

end

interpretation event_decoder: incremental_decoder decode_all
  by unfold_locales (rule decode_all_append)

lemma chan_send_open [simp]: "ch_budget tx = None \<Longrightarrow> chan_send x tx = (True, tx\<lparr>ch_sent := ch_sent tx @ [x]\<rparr>)"
  by (simp add: chan_send_def)

lemma send_all_open [simp]:
  "ch_budget tx = None \<Longrightarrow> send_all es tx = (True, tx\<lparr>ch_sent := ch_sent tx @ map Inr es\<rparr>)"
  by (induction es arbitrary: tx) simp_all

lemma follow_decode_open:
  assumes "ch_budget tx = None" "cursor \<le> length bs"
  shows "\<exists>k. follow_decode bs cursor tx =
      (True, k, tx\<lparr>ch_sent := ch_sent tx @ map Inr (fst (decode_all (drop cursor bs)))\<rparr>)
    \<and> drop k bs = snd (decode_all (drop cursor bs))"
  using assms
proof (induction bs cursor tx rule: follow_decode.induct)
  case (1 bs cursor tx)
  show ?case
  proof (cases "cursor < length bs")
    case False
    with "1.prems" show ?thesis by (subst follow_decode.simps) simp
  next
    case True
    show ?thesis
    proof (cases "decode_event_with_len (drop cursor bs)")
      case (Record e n)
      have "cursor + n \<le> length bs" using decode_Record_length [OF Record] True by auto
      with Record "1.IH"(1) [OF True Record, of True "tx\<lparr>ch_sent := ch_sent tx @ [Inr e]\<rparr>"] "1.prems" True show ?thesis
        by (subst follow_decode.simps) (simp add: decode_all_Record add.commute)
    next
      case NeedMore
      with True show ?thesis by (subst follow_decode.simps) (simp add: decode_all_NeedMore)
    next
      case Malformed
      show ?thesis
      proof (cases "resync_offset (drop cursor bs)")
        case None
        with True Malformed show ?thesis by (subst follow_decode.simps) (simp add: decode_all_stuck)
      next
        case (Some k)
        have "cursor + k \<le> length bs" using resync_offset_length [OF Some] True by auto
        with Some "1.IH"(2) [OF True Malformed Some] "1.prems" True Malformed show ?thesis
          by (subst follow_decode.simps) (simp add: decode_all_skip add.commute)
      qed
    qed
  qed
qed

section \<open>Following a growing file\<close>

text \<open>
  The invariant: the offset is inside the live file, whose inode is the remembered one, and what
  was sent with the buffered bytes is the decoding of everything before the offset.
\<close>

definition live_bytes :: "fs \<Rightarrow> string \<Rightarrow> bytes" where
  "live_bytes f path = (case content f path of None \<Rightarrow> [] | Some d \<Rightarrow> d)"

definition follow_inv :: "string \<Rightarrow> log_entry list \<Rightarrow> events_tail_state \<Rightarrow> chan \<Rightarrow> fs \<Rightarrow> bool" where
  "follow_inv path base st tx f \<longleftrightarrow>
     quiet f \<and> \<not> stuck (snd (decode_all (live_bytes f path))) \<and> ch_budget tx = None \<and> et_pos st \<le> length (live_bytes f path)
     \<and> (case et_inode st of None \<Rightarrow> et_pos st = 0 | Some i \<Rightarrow> fs_names f path = Some i)
     \<and> et_leftover st = snd (decode_all (take (et_pos st) (live_bytes f path)))
     \<and> ch_sent tx = map Inr (base @ fst (decode_all (take (et_pos st) (live_bytes f path))))"

lemma follow_inv_default:
  "quiet f \<Longrightarrow> \<not> stuck (snd (decode_all (live_bytes f path))) \<Longrightarrow> ch_budget tx = None \<Longrightarrow> ch_sent tx = [] \<Longrightarrow> follow_inv path [] events_tail_default tx f"
  by (simp add: follow_inv_def events_tail_default_def)

lemma follow_reset_inv:
  assumes "follow_inv path base st tx f" "fs_names f path = Some i"
  shows "follow_reset path i (length (fs_data f i)) st tx f = (Continue, st\<lparr>et_inode := Some i\<rparr>, tx, f)"
  using assms by (auto simp: follow_inv_def follow_reset_def live_bytes_def content_def split: option.splits)

lemma poll_follow_inv:
  assumes inv: "follow_inv path base st tx f"
  shows "\<exists>st' tx'. poll_events_once path (\<lambda>f. f) st tx f = (Continue, st', tx', f) \<and> follow_inv path base st' tx' f
    \<and> et_pos st' = length (live_bytes f path)"
proof (cases "fs_names f path")
  case None
  then have "live_bytes f path = []" by (simp add: live_bytes_def content_def)
  moreover from None inv have "poll_events_once path (\<lambda>f. f) st tx f = (Continue, st, tx, f)"
    by (auto simp: poll_events_once_def fs_open_def follow_inv_def live_bytes_def content_def split: option.splits)
  ultimately show ?thesis using inv by (simp add: follow_inv_def)
next
  case (Some i)
  have q: "quiet f" and ns: "\<not> stuck (snd (decode_all (live_bytes f path)))" using inv by (simp_all add: follow_inv_def)
  have d: "live_bytes f path = fs_data f i" using Some by (simp add: live_bytes_def content_def)
  note reset = follow_reset_inv [OF inv Some]
  show ?thesis
  proof (cases "et_pos st = length (fs_data f i)")
    case True
    then have "poll_events_once path (\<lambda>f. f) st tx f = (Continue, st\<lparr>et_inode := Some i\<rparr>, tx, f)"
      using Some q reset by (simp add: poll_events_once_def fs_open_def handle_len_def)
    with True inv Some d show ?thesis by (simp add: follow_inv_def)
  next
    case False
    define new where "new = drop (et_pos st) (fs_data f i)"
    define old where "old = take (et_pos st) (fs_data f i)"
    have all: "decode_all (fs_data f i) = (fst (decode_all old) @ fst (decode_all (et_leftover st @ new)),
        snd (decode_all (et_leftover st @ new)))"
      using event_decoder.run_append [of old new] inv d by (simp add: old_def new_def follow_inv_def)
    obtain k where k: "follow_decode (et_leftover st @ new) 0 tx =
        (True, k, tx\<lparr>ch_sent := ch_sent tx @ map Inr (fst (decode_all (et_leftover st @ new)))\<rparr>)"
      "drop k (et_leftover st @ new) = snd (decode_all (et_leftover st @ new))"
      using follow_decode_open [of tx 0 "et_leftover st @ new"] inv by (auto simp: follow_inv_def)
    have "\<not> stuck (drop k (et_leftover st @ new))" using ns all k(2) d by simp
    with k False Some q reset have "poll_events_once path (\<lambda>f. f) st tx f =
        (Continue, \<lparr>et_pos = length (fs_data f i), et_leftover = drop k (et_leftover st @ new), et_inode = Some i\<rparr>,
         tx\<lparr>ch_sent := ch_sent tx @ map Inr (fst (decode_all (et_leftover st @ new)))\<rparr>, f)"
      by (simp add: poll_events_once_def fs_open_def handle_len_def handle_seek_def handle_read_def Let_def
          del: drop_append flip: new_def)
    moreover have "drop k (et_leftover st @ new) = snd (decode_all (fs_data f i))"
      "ch_sent tx @ map Inr (fst (decode_all (et_leftover st @ new))) = map Inr (base @ fst (decode_all (fs_data f i)))"
      using inv d k(2) all by (simp_all add: follow_inv_def flip: old_def)
    ultimately show ?thesis
      using q ns d Some inv by (simp only: follow_inv_def) simp
  qed
qed

text \<open>Between two polls the live file is extended in place, or created.\<close>

definition extends_live :: "string \<Rightarrow> (fs \<Rightarrow> fs) \<Rightarrow> bool" where
  "extends_live path env \<longleftrightarrow>
     (\<forall>f. quiet f \<and> \<not> stuck (snd (decode_all (live_bytes f path))) \<longrightarrow> quiet (env f) \<and> prefix (live_bytes f path) (live_bytes (env f) path)
        \<and> (\<forall>i. fs_names f path = Some i \<longrightarrow> fs_names (env f) path = Some i)
        \<and> \<not> stuck (snd (decode_all (live_bytes (env f) path))))"

lemma follow_inv_env: "follow_inv path base st tx f \<Longrightarrow> extends_live path env \<Longrightarrow> follow_inv path base st tx (env f)"
  by (fastforce simp: follow_inv_def extends_live_def prefix_def split: option.splits)

lemma poll_after_env:
  assumes "follow_inv path base st tx f" "extends_live path env"
  obtains st' tx' where "poll_events_once path (\<lambda>f. f) st tx (env f) = (Continue, st', tx', env f)"
    "follow_inv path base st' tx' (env f)" "et_pos st' = length (live_bytes (env f) path)"
  using poll_follow_inv [OF follow_inv_env [OF assms]] assms
  by (auto simp: extends_live_def follow_inv_def)

lemma follow_loop_inv:
  assumes "follow_inv path base st tx f" "rs \<noteq> []"
    and "\<forall>r\<in>set rs. extends_live path (fr_env r) \<and> extends_live path (fr_final_env r) \<and> fr_mid r = (\<lambda>f. f)"
  shows "case follow_loop path rs st tx f of (_, st', tx', f') \<Rightarrow>
    follow_inv path base st' tx' f' \<and> et_pos st' = length (live_bytes f' path)"
  using assms
proof (induction rs arbitrary: st tx f)
  case (Cons r rs)
  obtain st1 tx1 where p1: "poll_events_once path (\<lambda>f. f) st tx (fr_env r f) = (Continue, st1, tx1, fr_env r f)"
    "follow_inv path base st1 tx1 (fr_env r f)" "et_pos st1 = length (live_bytes (fr_env r f) path)"
    using poll_after_env [OF Cons.prems(1)] Cons.prems(3) by (metis list.set_intros(1))
  show ?case
  proof (cases "fr_wake r")
    case Slept
    with Cons.IH [OF p1(2)] Cons.prems p1 show ?thesis by (cases "rs = []") simp_all
  next
    case Stop_signal
    obtain st2 tx2 where "poll_events_once path (\<lambda>f. f) st1 tx1 (fr_final_env r (fr_env r f)) = (Continue, st2, tx2, fr_final_env r (fr_env r f))"
      "follow_inv path base st2 tx2 (fr_final_env r (fr_env r f))"
      "et_pos st2 = length (live_bytes (fr_final_env r (fr_env r f)) path)"
      using poll_after_env [OF p1(2)] Cons.prems(3) by (metis list.set_intros(1))
    with Stop_signal Cons.prems p1 show ?thesis by simp
  qed
qed simp

section \<open>Following across a rotation\<close>

text \<open>
  A rotation between two polls: the file the follower was reading is now slot 1, under the same
  inode, and the live file is a new one.
\<close>

lemma poll_rotated:
  assumes q: "quiet f" and p: "is_events_path p" and b: "ch_budget tx = None"
    and old: "et_inode st = Some i" "fs_names f (slot p 1) = Some i" and new: "fs_names f p = Some j" "i \<noteq> j"
    and bound: "et_pos st \<le> length (fs_data f i)" "length (fs_data f i) - et_pos st \<le> ROTATED_DRAIN_MAX_BYTES"
    and ns: "\<not> stuck (snd (decode_all (fs_data f j)))"
  shows "\<exists>st' tx'. poll_events_once p (\<lambda>f. f) st tx f = (Continue, st', tx', f)
    \<and> ch_sent tx' = ch_sent tx @ map Inr (parse_events_file (drop (et_pos st) (fs_data f i)) @ parse_events_file (fs_data f j))
    \<and> ch_budget tx' = None \<and> et_inode st' = Some j \<and> et_pos st' = length (fs_data f j)
    \<and> et_leftover st' = snd (decode_all (fs_data f j))"
proof -
  have one: "with_extension p ''log.1'' = slot p 1"
    by (simp add: slot_def rotated_path_def show_nat.simps digit_chars)
  define tx1 where "tx1 = tx\<lparr>ch_sent := ch_sent tx @ map Inr (parse_events_file (drop (et_pos st) (fs_data f i)))\<rparr>"
  have "take (min (length (fs_data f i) - et_pos st) ROTATED_DRAIN_MAX_BYTES) (drop (et_pos st) (fs_data f i))
      = drop (et_pos st) (fs_data f i)"
    using bound by simp
  then have drain: "drain_rotated_remainder (slot p 1) i (et_pos st) tx f = (Continue, tx1, f)"
    using q old b bound by (auto simp: drain_rotated_remainder_def fs_open_def handle_len_def handle_seek_def
        handle_read_def Let_def tx1_def)
  define st1 where "st1 = \<lparr>et_pos = 0, et_leftover = [], et_inode = Some j\<rparr>"
  have reset: "follow_reset p j len st tx f = (Continue, st1, tx1, f)" for len
    using old new drain one by (simp add: follow_reset_def st1_def)
  obtain k where k: "follow_decode (fs_data f j) 0 tx1 =
      (True, k, tx1\<lparr>ch_sent := ch_sent tx1 @ map Inr (fst (decode_all (fs_data f j)))\<rparr>)"
    "drop k (fs_data f j) = snd (decode_all (fs_data f j))"
    using follow_decode_open [of tx1 0 "fs_data f j"] b by (auto simp: tx1_def)
  show ?thesis
  proof (cases "fs_data f j = []")
    case True
    then show ?thesis
      using q new reset b by (simp add: poll_events_once_def fs_open_def handle_len_def)
        (simp add: st1_def tx1_def parse_events_file_def parse_events_loop.simps)
  next
    case False
    then show ?thesis
      using q new reset b k ns by (simp add: poll_events_once_def fs_open_def handle_len_def handle_seek_def handle_read_def Let_def)
        (simp add: st1_def tx1_def parse_events_file_decode_all)
  qed
qed

text \<open>
  If the live file grows between the two snapshots of a poll, the poll sends the new records but
  does not move the offset past them.
\<close>

lemma poll_growing:
  assumes q: "quiet f" and i: "fs_names f p = Some i" and inv: "follow_inv p base st tx f"
    and lt: "et_pos st < length (fs_data f i)" and clean: "et_leftover st = []"
    and d: "drop (et_pos st) (fs_data f i) = encode_events es" and st: "list_all storable es" "list_all storable xs"
  shows "\<exists>st' tx' f'. poll_events_once p (shim_append p (encode_events xs)) st tx f = (Continue, st', tx', f')
    \<and> ch_sent tx' = ch_sent tx @ map (Inr \<circ> truncate_ms) (es @ xs) \<and> ch_budget tx' = None
    \<and> et_pos st' = length (fs_data f i) \<and> et_leftover st' = [] \<and> et_inode st' = Some i
    \<and> quiet f' \<and> fs_names f' p = Some i \<and> fs_data f' i = fs_data f i @ encode_events xs"
proof -
  define f' where "f' = shim_append p (encode_events xs) f"
  have f': "f' = f\<lparr>fs_data := (fs_data f)(i := fs_data f i @ encode_events xs)\<rparr>"
    using q i by (simp add: f'_def shim_append_def handle_append_def)
  have b: "ch_budget tx = None" using inv by (simp add: follow_inv_def)
  have dec: "decode_all (encode_events es @ encode_events xs) = (map truncate_ms (es @ xs), [])"
    using decode_all_encode_events [of "es @ xs" "[]"] st by simp
  obtain k where k: "follow_decode (encode_events es @ encode_events xs) 0 tx =
      (True, k, tx\<lparr>ch_sent := ch_sent tx @ map Inr (map truncate_ms (es @ xs))\<rparr>)"
    "drop k (encode_events es @ encode_events xs) = []"
    using follow_decode_open [of tx 0 "encode_events es @ encode_events xs"] b dec by auto
  have "drop (et_pos st) (fs_data f i @ encode_events xs) = encode_events es @ encode_events xs"
    using d lt by simp
  with k q i lt clean f' have "poll_events_once p (shim_append p (encode_events xs)) st tx f =
      (Continue, \<lparr>et_pos = length (fs_data f i), et_leftover = [], et_inode = Some i\<rparr>,
       tx\<lparr>ch_sent := ch_sent tx @ map Inr (map truncate_ms (es @ xs))\<rparr>, f')"
    using follow_reset_inv [OF inv i]
    by (simp add: poll_events_once_def fs_open_def handle_len_def handle_seek_def handle_read_def Let_def stuck_def
        del: drop_append flip: f'_def)
  with f' q i b show ?thesis by simp
qed

lemma follow_loop_parses:
  assumes "quiet f" "\<not> stuck (snd (decode_all (live_bytes f path)))" "ch_budget tx = None" "ch_sent tx = []"
    and "rs \<noteq> []"
    and "\<forall>r\<in>set rs. extends_live path (fr_env r) \<and> extends_live path (fr_final_env r) \<and> fr_mid r = (\<lambda>f. f)"
    and "follow_loop path rs events_tail_default tx f = (b, st', tx', f')"
  shows "ch_sent tx' = map Inr (parse_events_file (live_bytes f' path))"
proof -
  have "follow_inv path [] st' tx' f'" "et_pos st' = length (live_bytes f' path)"
    using follow_loop_inv [OF follow_inv_default [OF assms(1-4)] assms(5,6)] assms(7) by simp_all
  then show ?thesis by (simp add: follow_inv_def parse_events_file_decode_all)
qed

section \<open>Properties\<close>





text \<open>
  C15: a record that is appended between the length snapshot and the read of one poll is sent twice:
  by that poll, which reads past the length it stores as its offset, and again by the next one.
\<close>

theorem follower_repeats_on_growth:
  assumes "quiet f" "fs_names f p = Some i" "fs_data f i = encode_events es" "es \<noteq> []"
    and "list_all storable es" "list_all storable xs" "xs \<noteq> []"
  shows "case poll_events_once p (shim_append p (encode_events xs)) events_tail_default \<lparr>ch_sent = [], ch_budget = None\<rparr> f of
    (_, st1, tx1, f1) \<Rightarrow> (case poll_events_once p (\<lambda>f. f) st1 tx1 f1 of
      (_, _, tx2, _) \<Rightarrow> ch_sent tx2 = map (Inr \<circ> truncate_ms) (es @ xs @ xs))"
proof -
  let ?tx = "\<lparr>ch_sent = [], ch_budget = None\<rparr>"
  have ne: "encode_events es \<noteq> []" using assms(4) by (cases es) simp_all
  have dec: "decode_all (encode_events ys) = (map truncate_ms ys, [])" if "list_all storable ys" for ys
    using decode_all_encode_events [of ys "[]"] that by simp
  have inv: "follow_inv p [] events_tail_default ?tx f"
    using assms(1-3) dec [OF assms(5)] by (intro follow_inv_default) (simp_all add: live_bytes_def content_def stuck_def)
  obtain st1 tx1 f1 where p1: "poll_events_once p (shim_append p (encode_events xs)) events_tail_default ?tx f = (Continue, st1, tx1, f1)"
    "ch_sent tx1 = map (Inr \<circ> truncate_ms) (es @ xs)" "ch_budget tx1 = None" "et_pos st1 = length (fs_data f i)"
    "et_leftover st1 = []" "et_inode st1 = Some i" "quiet f1" "fs_names f1 p = Some i"
    "fs_data f1 i = fs_data f i @ encode_events xs"
    using poll_growing [OF assms(1,2) inv, of es xs] assms ne by (auto simp: events_tail_default_def)
  obtain k where k: "follow_decode (encode_events xs) 0 tx1 =
      (True, k, tx1\<lparr>ch_sent := ch_sent tx1 @ map Inr (map truncate_ms xs)\<rparr>)"
    using follow_decode_open [of tx1 0 "encode_events xs"] p1(3) dec [OF assms(6)] by auto
  have "encode_events xs \<noteq> []" using assms(7) by (cases xs) simp_all
  then show ?thesis
    using p1 k by (simp add: poll_events_once_def [of p "\<lambda>f. f" st1] fs_open_def handle_len_def follow_reset_def
        handle_seek_def handle_read_def Let_def)
qed

theorem follower_repeats_on_growth_witness:
  "case poll_events_once ''/e'' (shim_append ''/e'' (encode_events [\<lparr>entry_stream = Stdout, entry_timestamp = 0, entry_data = ''b''\<rparr>]))
        events_tail_default \<lparr>ch_sent = [], ch_budget = None\<rparr>
        \<lparr>fs_names = [''/e'' \<mapsto> 0], fs_data = (\<lambda>_. encode_events [\<lparr>entry_stream = Stdout, entry_timestamp = 0, entry_data = ''a''\<rparr>]),
          fs_next = 1, fs_faults = []\<rparr> of
    (_, st1, tx1, f1) \<Rightarrow> (case poll_events_once ''/e'' (\<lambda>f. f) st1 tx1 f1 of
      (_, _, tx2, _) \<Rightarrow> map projr (ch_sent tx2) =
        [\<lparr>entry_stream = Stdout, entry_timestamp = 0, entry_data = ''a''\<rparr>,
         \<lparr>entry_stream = Stdout, entry_timestamp = 0, entry_data = ''b''\<rparr>,
         \<lparr>entry_stream = Stdout, entry_timestamp = 0, entry_data = ''b''\<rparr>])"
  using follower_repeats_on_growth [of "\<lparr>fs_names = [''/e'' \<mapsto> 0],
      fs_data = (\<lambda>_. encode_events [\<lparr>entry_stream = Stdout, entry_timestamp = 0, entry_data = ''a''\<rparr>]),
      fs_next = 1, fs_faults = []\<rparr>" "''/e''" 0 "[\<lparr>entry_stream = Stdout, entry_timestamp = 0, entry_data = ''a''\<rparr>]"
      "[\<lparr>entry_stream = Stdout, entry_timestamp = 0, entry_data = ''b''\<rparr>]"]
  by (simp add: quiet_def storable_def MAX_RECORD_BYTES_def truncate_ms_def timestamp_ms_def del: encode_events_simps
      split: prod.splits)

end
