(* ===== verification/Log_Channel.thy ===== *)
theory Log_Channel
  imports Log_Follower
begin

text \<open>
  The handle \<^verbatim>\<open>LogFollower\<close> of src/src/logs.rs: the task of \<open>follow_loop\<close> and its reader, joined by a channel
  of \<open>FOLLOW_CHANNEL_CAP\<close> places. A sender waits while the channel is full; dropping the handle closes
  the channel and aborts the task. The two run in any order, which is a list of events here.

  \<open>Log_Follower\<close> sees the channel from the side of the sender: an unlimited channel, or one whose
  reader goes away after some entries (\<open>ch_budget\<close>). Both views are related to the queue here.
\<close>

section \<open>Model\<close>

text \<open>
  A follower: what its task has still to send, the entries in the channel, what the reader has got,
  and whether the task has returned after its last send.
\<close>

record log_follower =
  lf_todo :: "log_entry result list"
  lf_rx :: "log_entry result list"
  lf_got :: "log_entry result list"
  lf_ends :: bool

text \<open>
  The task runs for the given rounds; with a stop signal it ends, as after a fatal error, and without
  one it keeps polling.
\<close>

definition start_inner :: "string \<Rightarrow> follow_round list \<Rightarrow> fs \<Rightarrow> log_follower" where
  "start_inner path rounds f =
     (case follow_loop path rounds events_tail_default \<lparr>ch_sent = [], ch_budget = None\<rparr> f of
        (running, _, tx, _) \<Rightarrow> \<lparr>lf_todo = ch_sent tx, lf_rx = [], lf_got = [], lf_ends = (\<not> running)\<rparr>)"

text \<open>Without a stop signal the task only ever sleeps between its polls.\<close>

definition follower_start :: "string \<Rightarrow> follow_round list \<Rightarrow> fs \<Rightarrow> log_follower" where
  "follower_start path rounds f = start_inner path (map (\<lambda>r. r\<lparr>fr_wake := Slept\<rparr>) rounds) f"

definition start_with_stop :: "string \<Rightarrow> follow_round list \<Rightarrow> fs \<Rightarrow> log_follower" where
  "start_with_stop path rounds f = start_inner path rounds f"

text \<open>A send of the task: into a free place, or not yet.\<close>

definition task_sends :: "log_follower \<Rightarrow> log_follower" where
  "task_sends lf =
     (case lf_todo lf of
        x # xs \<Rightarrow> if length (lf_rx lf) < FOLLOW_CHANNEL_CAP then lf\<lparr>lf_todo := xs, lf_rx := lf_rx lf @ [x]\<rparr> else lf
      | [] \<Rightarrow> lf)"

text \<open>\<^verbatim>\<open>recv\<close> and \<^verbatim>\<open>poll_next\<close>: an entry, the end of the stream, or nothing yet.\<close>

datatype polled = Ready "log_entry result option" | Pending

definition recv :: "log_follower \<Rightarrow> polled \<times> log_follower" where
  "recv lf =
     (case lf_rx lf of
        x # xs \<Rightarrow> (Ready (Some x), lf\<lparr>lf_rx := xs, lf_got := lf_got lf @ [x]\<rparr>)
      | [] \<Rightarrow> (if lf_todo lf = [] \<and> lf_ends lf then Ready None else Pending, lf))"

definition drop_follower :: "log_follower \<Rightarrow> log_follower" where
  "drop_follower lf = lf\<lparr>lf_todo := [], lf_rx := [], lf_ends := True\<rparr>"

datatype follower_event = Task_Sends | Reader_Receives | Reader_Drops

fun follower_step :: "follower_event \<Rightarrow> log_follower \<Rightarrow> log_follower" where
  "follower_step Task_Sends lf = task_sends lf"
| "follower_step Reader_Receives lf = snd (recv lf)"
| "follower_step Reader_Drops lf = drop_follower lf"

definition follower_run :: "follower_event list \<Rightarrow> log_follower \<Rightarrow> log_follower" where
  "follower_run es lf = fold follower_step es lf"

section \<open>Order and capacity\<close>

lemma follower_run_simps [simp]:
  "follower_run [] lf = lf" "follower_run (e # es) lf = follower_run es (follower_step e lf)"
  "follower_run (es @ es') lf = follower_run es' (follower_run es lf)"
  by (simp_all add: follower_run_def)

text \<open>All that the task sends, in the places where it is.\<close>

definition entries :: "log_follower \<Rightarrow> log_entry result list" where
  "entries lf = lf_got lf @ lf_rx lf @ lf_todo lf"

definition in_order :: "log_entry result list \<Rightarrow> log_follower \<Rightarrow> bool" where
  "in_order xs lf \<longleftrightarrow> prefix (entries lf) xs \<and> length (lf_rx lf) \<le> FOLLOW_CHANNEL_CAP"

lemma in_order_step: "in_order xs lf \<Longrightarrow> in_order xs (follower_step e lf)"
  by (cases e) (auto simp: in_order_def entries_def task_sends_def recv_def drop_follower_def prefix_def split: list.split)

lemma in_order_run: "in_order xs lf \<Longrightarrow> in_order xs (follower_run es lf)"
  by (induction es arbitrary: lf) (simp_all add: in_order_step)

text \<open>Before a drop nothing is lost.\<close>

lemma complete_step:
  "e \<noteq> Reader_Drops \<Longrightarrow> entries (follower_step e lf) = entries lf"
  by (cases e) (auto simp: entries_def task_sends_def recv_def split: list.split)

lemma complete_run: "Reader_Drops \<notin> set es \<Longrightarrow> entries (follower_run es lf) = entries lf"
proof (induction es arbitrary: lf)
  case (Cons e es)
  then show ?case using complete_step [of e lf] by fastforce
qed simp

lemma ends_run: "Reader_Drops \<notin> set es \<Longrightarrow> lf_ends (follower_run es lf) = lf_ends lf"
proof (induction es arbitrary: lf)
  case (Cons e es)
  moreover have "lf_ends (follower_step e lf) = lf_ends lf" using Cons.prems
    by (cases e) (auto simp: task_sends_def recv_def split: list.split)
  ultimately show ?case by simp
qed simp

text \<open>A turn of both sides always moves an entry, until there is none: a full channel never blocks for good.\<close>

lemma turn_moves:
  "lf_got (follower_run [Task_Sends, Reader_Receives] lf) = lf_got lf @ take 1 (lf_rx lf @ lf_todo lf)"
  by (auto simp: task_sends_def recv_def FOLLOW_CHANNEL_CAP_def split: list.split)

lemma turns_deliver:
  "length (lf_rx lf @ lf_todo lf) \<le> n \<Longrightarrow> lf_got (follower_run (concat (replicate n [Task_Sends, Reader_Receives])) lf) = entries lf"
proof (induction n arbitrary: lf)
  case 0
  then show ?case by (simp add: entries_def)
next
  case (Suc n)
  let ?lf = "follower_run [Task_Sends, Reader_Receives] lf"
  let ?rest = "lf_rx lf @ lf_todo lf" and ?rest' = "lf_rx ?lf @ lf_todo ?lf"
  have all: "entries ?lf = entries lf" by (rule complete_run) simp
  have "(lf_got lf @ take 1 ?rest) @ ?rest' = lf_got lf @ take 1 ?rest @ drop 1 ?rest"
    using all unfolding entries_def turn_moves append_take_drop_id by simp
  then have "?rest' = drop 1 ?rest" by (simp only: append_assoc same_append_eq)
  then have "length ?rest' \<le> n" using Suc.prems by simp
  from Suc.IH [OF this] all show ?case by simp
qed

section \<open>A reader that goes away\<close>

text \<open>
  The channel as the sender sees it when the reader leaves after \<open>n\<close> entries, compared with the
  channel whose reader stays: the task sends the same entries up to there, and stops at the first
  send that fails.
\<close>

definition limited :: "nat \<Rightarrow> chan \<Rightarrow> chan" where
  "limited n tx = \<lparr>ch_sent = take n (ch_sent tx), ch_budget = Some (n - length (ch_sent tx))\<rparr>"

definition grows :: "chan \<Rightarrow> chan \<Rightarrow> bool" where
  "grows tx tx' \<longleftrightarrow> ch_budget tx' = None \<and> prefix (ch_sent tx) (ch_sent tx')"

lemma grows_refl: "ch_budget tx = None \<Longrightarrow> grows tx tx"
  by (simp add: grows_def)

lemma grows_trans: "grows tx tx' \<Longrightarrow> grows tx' tx'' \<Longrightarrow> grows tx tx''"
  unfolding grows_def by (blast intro: prefix_order.trans)

lemma grows_sent: "ch_budget tx = None \<Longrightarrow> grows tx (tx\<lparr>ch_sent := ch_sent tx @ xs\<rparr>)"
  by (simp add: grows_def)

lemma limited_full: "grows tx tx' \<Longrightarrow> n \<le> length (ch_sent tx) \<Longrightarrow> limited n tx' = limited n tx"
  by (auto simp: grows_def limited_def prefix_def)

lemma limited_chan_send:
  assumes "ch_budget tx = None"
  shows "chan_send x (limited n tx) = (length (ch_sent tx) < n, limited n (tx\<lparr>ch_sent := ch_sent tx @ [x]\<rparr>))"
proof (cases "length (ch_sent tx) < n")
  case True
  then have "n - length (ch_sent tx) = Suc (n - Suc (length (ch_sent tx)))" by simp
  with True show ?thesis by (simp add: chan_send_def limited_def)
next
  case False
  then show ?thesis by (simp add: chan_send_def limited_def)
qed

text \<open>
  How a computation on the limited channel compares: it gives the same result, or it has met a closed
  channel, when the unlimited one has sent at least \<open>n\<close> entries.
\<close>

lemma limited_send_all:
  assumes "ch_budget tx = None"
  shows "\<exists>ok. send_all es (limited n tx) = (ok, limited n (tx\<lparr>ch_sent := ch_sent tx @ map Inr es\<rparr>))
    \<and> (ok \<or> n \<le> length (ch_sent tx @ map Inr es))"
  using assms
proof (induction es arbitrary: tx)
  case (Cons e es)
  let ?tx = "tx\<lparr>ch_sent := ch_sent tx @ [Inr e]\<rparr>"
  show ?case
  proof (cases "length (ch_sent tx) < n")
    case True
    with Cons.IH [of ?tx] Cons.prems show ?thesis by (simp add: limited_chan_send)
  next
    case False
    have "limited n (tx\<lparr>ch_sent := ch_sent tx @ map Inr (e # es)\<rparr>) = limited n tx" "limited n ?tx = limited n tx"
      using False grows_sent [OF Cons.prems] by (simp_all only: limited_full not_less)
    with False show ?thesis by (simp add: limited_chan_send [OF Cons.prems]) blast
  qed
qed auto

lemma limited_follow_decode:
  assumes "ch_budget tx = None" "cursor \<le> length bs" "follow_decode bs cursor tx = (b, k, tx')"
  shows "\<exists>ok k'. follow_decode bs cursor (limited n tx) = (ok, k', limited n tx') \<and> (ok \<longrightarrow> k' = k) \<and> (ok \<or> n \<le> length (ch_sent tx'))"
  using assms
proof (induction bs cursor tx arbitrary: b k tx' rule: follow_decode.induct)
  case (1 bs cursor tx)
  show ?case
  proof (cases "cursor < length bs")
    case False
    then have "b \<and> k = cursor \<and> tx' = tx" using "1.prems"(3) follow_decode.simps [of bs cursor tx] by simp
    with False show ?thesis by (subst follow_decode.simps) auto
  next
    case True
    note here = follow_decode.simps [of bs cursor]
    show ?thesis
    proof (cases "decode_event_with_len (drop cursor bs)")
      case (Record e m)
      let ?tx = "tx\<lparr>ch_sent := ch_sent tx @ [Inr e]\<rparr>"
      have le: "cursor + m \<le> length bs" using decode_Record_length [OF Record] True by auto
      have d: "follow_decode bs (cursor + m) ?tx = (b, k, tx')" using "1.prems"(1,3) True Record by (simp add: here [of tx])
      show ?thesis
      proof (cases "length (ch_sent tx) < n")
        case fits: True
        from "1.IH"(1) [OF True Record, of True ?tx, OF _ _ _ le d] "1.prems"(1) fits True Record show ?thesis
          by (simp add: here [of "limited n tx"] limited_chan_send)
      next
        case False
        have "grows tx tx'" using follow_decode_open [OF _ le, of ?tx] d "1.prems"(1) by (auto simp: grows_def)
        then have "limited n tx' = limited n tx" "n \<le> length (ch_sent tx')"
          using False by (simp_all add: limited_full) (auto simp: grows_def prefix_def)
        moreover have "limited n ?tx = limited n tx" using False grows_sent [OF "1.prems"(1)] by (simp only: limited_full not_less)
        ultimately show ?thesis using False True Record by (simp add: here [of "limited n tx"] limited_chan_send [OF "1.prems"(1)]) blast
      qed
    next
      case NeedMore
      then have "b \<and> k = cursor \<and> tx' = tx" using "1.prems"(3) True by (auto simp: here [of tx])
      with True NeedMore show ?thesis by (auto simp: here [of "limited n tx"])
    next
      case Malformed
      show ?thesis
      proof (cases "resync_offset (drop cursor bs)")
        case None
        then have "b \<and> k = cursor \<and> tx' = tx" using "1.prems"(3) True Malformed by (auto simp: here [of tx])
        with True Malformed None show ?thesis by (auto simp: here [of "limited n tx"])
      next
        case (Some j)
        have le: "cursor + j \<le> length bs" using resync_offset_length [OF Some] True by auto
        have "follow_decode bs (cursor + j) tx = (b, k, tx')" using "1.prems"(3) True Malformed Some by (simp add: here [of tx])
        from "1.IH"(2) [OF True Malformed Some "1.prems"(1) le this] True Malformed Some show ?thesis
          by (simp add: here [of "limited n tx"])
      qed
    qed
  qed
qed

text \<open>A poll: both end alike, or the one with the closed channel ends there.\<close>

definition cut_short :: "nat \<Rightarrow> poll_outcome \<times> 'a \<times> chan \<times> 'b \<Rightarrow> poll_outcome \<times> 'a \<times> chan \<times> 'b \<Rightarrow> bool" where
  "cut_short n r r' \<longleftrightarrow> (case (r, r') of ((out, st, tx, f), (out', st', tx', f')) \<Rightarrow> tx' = limited n tx
     \<and> (out' = out \<and> st' = st \<and> f' = f \<or> out' = ReceiverDropped \<and> n \<le> length (ch_sent tx)))"

lemma cut_shortI: "cut_short n (out, st, tx, f) (out, st, limited n tx, f)"
  by (simp add: cut_short_def)

text \<open>What a drain does with the channel: nothing, or it sends the entries of the rotated file.\<close>

lemma drain_sends:
  obtains (none) out f' where "\<And>tx. drain_rotated_remainder path i pos tx f = (out, tx, f')"
  | (some) es f' where "\<And>tx. drain_rotated_remainder path i pos tx f =
      (case send_all es tx of (ok, tx') \<Rightarrow> (if ok then Continue else ReceiverDropped, tx', f'))"
proof -
  obtain a f1 where a: "fs_open path f = (a, f1)" by fastforce
  show ?thesis
  proof (cases a)
    case (Inl k)
    with a show ?thesis
      by (intro none [of "if k = Kind_NotFound then Continue else Fatal (Io ''follow: open rotated events'' k)" f1])
        (simp add: drain_rotated_remainder_def)
  next
    case a': (Inr j)
    obtain b f2 where b: "handle_len j f1 = (b, f2)" by fastforce
    show ?thesis
    proof (cases "\<exists>len. b = Inr len \<and> j = i \<and> pos < len")
      case False
      with a a' b show ?thesis
        by (intro none [of "case b of Inl k \<Rightarrow> Fatal (Io ''follow: stat rotated events'' k) | Inr _ \<Rightarrow> Continue" f2])
          (auto simp: drain_rotated_remainder_def split: sum.split)
    next
      case True
      then obtain len where b': "b = Inr len" "j = i" "pos < len" by blast
      obtain c f3 where c: "handle_seek i f2 = (c, f3)" by fastforce
      obtain d f4 where d: "handle_read i pos (Some (min (len - pos) ROTATED_DRAIN_MAX_BYTES)) f3 = (d, f4)" by fastforce
      note run = a a' b b' c d drain_rotated_remainder_def Let_def
      show ?thesis
      proof (cases c)
        case (Inl k)
        with run show ?thesis by (intro none) simp
      next
        case c': (Inr u)
        show ?thesis
        proof (cases d)
          case (Inl k)
          with run c' show ?thesis by (intro none) simp
        next
          case (Inr buf)
          with run c' show ?thesis by (intro some [of f4 "parse_events_file buf"]) (simp split: prod.split bool.split)
        qed
      qed
    qed
  qed
qed

lemma limited_drain:
  assumes "ch_budget tx = None" "drain_rotated_remainder path i pos tx f = (out, tx', f')"
  shows "grows tx tx' \<and> cut_short n (out, (), tx', f') (case drain_rotated_remainder path i pos (limited n tx) f of (out, tx, f) \<Rightarrow> (out, (), tx, f))"
proof (cases rule: drain_sends [of path i pos f])
  case none
  with assms show ?thesis by (simp add: cut_shortI grows_refl)
next
  case (some es g)
  with assms limited_send_all [OF assms(1), of es n] show ?thesis
    by (auto simp: cut_short_def grows_def split: if_splits)
qed

lemma limited_reset:
  assumes "ch_budget tx = None" "follow_reset path inode len st tx f = (out, st', tx', f')"
  shows "grows tx tx' \<and> cut_short n (out, st', tx', f') (follow_reset path inode len st (limited n tx) f)"
proof (cases "\<exists>prev. et_inode st = Some prev \<and> prev \<noteq> inode")
  case True
  then obtain prev where prev: "et_inode st = Some prev" "prev \<noteq> inode" by blast
  obtain o1 tx1 f1 where d: "drain_rotated_remainder (with_extension path ''log.1'') prev (et_pos st) tx f = (o1, tx1, f1)"
    by (metis surj_pair)
  obtain o2 tx2 f2 where l: "drain_rotated_remainder (with_extension path ''log.1'') prev (et_pos st) (limited n tx) f = (o2, tx2, f2)"
    by (metis surj_pair)
  from limited_drain [OF assms(1) d, of n] assms(2) prev d l show ?thesis
    by (cases o1; cases o2) (auto simp: follow_reset_def cut_short_def)
next
  case False
  with assms show ?thesis by (auto simp: follow_reset_def cut_shortI grows_refl split: option.splits if_splits)
qed

text \<open>The part of a poll after a rotation or truncation has been dealt with.\<close>

definition poll_rest ::
  "nat \<Rightarrow> nat \<Rightarrow> (fs \<Rightarrow> fs) \<Rightarrow> events_tail_state \<Rightarrow> chan \<Rightarrow> fs \<Rightarrow> poll_outcome \<times> events_tail_state \<times> chan \<times> fs" where
  "poll_rest inode len mid st1 tx1 f3 =
     (if len = et_pos st1 then (Continue, st1, tx1, f3)
      else (case handle_seek inode f3 of
        (Inl k, f4) \<Rightarrow> (Fatal (Io ''follow: seek events'' k), st1, tx1, f4)
      | (Inr _, f4) \<Rightarrow>
        (let st2 = st1\<lparr>et_leftover := []\<rparr> in
         case handle_read inode (et_pos st1) None (mid f4) of
           (Inl k, f5) \<Rightarrow> (Fatal (Io ''follow: read events'' k), st2, tx1, f5)
         | (Inr new, f5) \<Rightarrow>
           (let bs = et_leftover st1 @ new; st3 = st2\<lparr>et_pos := len\<rparr> in
            case follow_decode bs 0 tx1 of
              (False, _, tx2) \<Rightarrow> (ReceiverDropped, st3, tx2, f5)
            | (True, cursor, tx2) \<Rightarrow>
              (let remainder = drop cursor bs
               in (Continue, st3\<lparr>et_leftover := (if stuck remainder then [] else remainder)\<rparr>, tx2, f5))))))"

lemma poll_events_once_rest:
  "poll_events_once path mid st tx f =
     (case fs_open path f of
        (Inl k, f1) \<Rightarrow>
          if k = Kind_NotFound
          then (Continue, if et_inode st = None then st\<lparr>et_pos := 0, et_leftover := []\<rparr> else st, tx, f1)
          else (Fatal (Io ''follow: open events'' k), st, tx, f1)
      | (Inr inode, f1) \<Rightarrow>
        (case handle_len inode f1 of
           (Inl k, f2) \<Rightarrow> (Fatal (Io ''follow: stat events'' k), st, tx, f2)
         | (Inr len, f2) \<Rightarrow>
           (case follow_reset path inode len st tx f2 of
              (Continue, st1, tx1, f3) \<Rightarrow> poll_rest inode len mid st1 tx1 f3
            | other \<Rightarrow> other)))"
  by (simp only: poll_events_once_def poll_rest_def)

lemma limited_poll_rest:
  assumes "ch_budget tx = None" "poll_rest inode len mid st tx f = (out, st', tx', f')"
  shows "grows tx tx' \<and> cut_short n (out, st', tx', f') (poll_rest inode len mid st (limited n tx) f)"
proof (cases "len = et_pos st")
  case True
  with assms show ?thesis by (auto simp: poll_rest_def cut_shortI grows_refl)
next
  case False
  obtain a f4 where a: "handle_seek inode f = (a, f4)" by fastforce
  obtain b f5 where b: "handle_read inode (et_pos st) None (mid f4) = (b, f5)" by fastforce
  show ?thesis
  proof (cases "\<exists>u new. a = Inr u \<and> b = Inr new")
    case False
    with assms \<open>len \<noteq> et_pos st\<close> a b show ?thesis
      by (cases a; cases b) (auto simp: poll_rest_def cut_shortI grows_refl)
  next
    case True
    then obtain u new where ab: "a = Inr u" "b = Inr new" by blast
    obtain ok k tx1 where d: "follow_decode (et_leftover st @ new) 0 tx = (ok, k, tx1)" by (metis surj_pair)
    from follow_decode_open [OF assms(1), of 0 "et_leftover st @ new"] d have "ok" "grows tx tx1" using assms(1) by (auto simp: grows_def)
    moreover obtain ok' k' where "follow_decode (et_leftover st @ new) 0 (limited n tx) = (ok', k', limited n tx1)"
      "ok' \<longrightarrow> k' = k" "ok' \<or> n \<le> length (ch_sent tx1)"
      using limited_follow_decode [OF assms(1) _ d, of n] by auto
    ultimately show ?thesis using assms False a b ab d
      by (cases ok') (auto simp: poll_rest_def cut_short_def Let_def)
  qed
qed

lemma cut_short_grows:
  assumes "cut_short n (out, st, tx, f) (ReceiverDropped, st1, tx1, f1)" "n \<le> length (ch_sent tx)" "grows tx tx'"
  shows "cut_short n (out', st', tx', f') (ReceiverDropped, st1, tx1, f1)"
  using assms limited_full [OF assms(3,2)] by (auto simp: cut_short_def grows_def prefix_def)

lemma limited_poll:
  assumes "ch_budget tx = None" "poll_events_once path mid st tx f = (out, st', tx', f')"
  shows "grows tx tx' \<and> cut_short n (out, st', tx', f') (poll_events_once path mid st (limited n tx) f)"
proof -
  obtain a f1 where a: "fs_open path f = (a, f1)" by fastforce
  show ?thesis
  proof (cases "\<exists>inode len. a = Inr inode \<and> fst (handle_len inode f1) = Inr len")
    case False
    with assms a show ?thesis
      by (cases a) (auto simp: poll_events_once_rest cut_shortI grows_refl split: prod.splits sum.splits)
  next
    case True
    then obtain inode len f2 where i: "a = Inr inode" "handle_len inode f1 = (Inr len, f2)" by (metis prod.collapse)
    obtain o1 st1 tx1 f3 where u: "follow_reset path inode len st tx f2 = (o1, st1, tx1, f3)" by (metis surj_pair)
    obtain o2 st2 tx2 f4 where l: "follow_reset path inode len st (limited n tx) f2 = (o2, st2, tx2, f4)" by (metis surj_pair)
    note r = limited_reset [OF assms(1) u, of n, unfolded l]
    show ?thesis
    proof (cases "o1 = Continue")
      case False
      with assms(2) a i u l r show ?thesis by (cases o1; cases o2) (auto simp: poll_events_once_rest cut_short_def)
    next
      case True
      with assms(2) a i u have rest: "poll_rest inode len mid st1 tx1 f3 = (out, st', tx', f')" by (simp add: poll_events_once_rest)
      have "ch_budget tx1 = None" using r by (simp add: grows_def)
      note p = limited_poll_rest [OF this rest, of n]
      have g: "grows tx tx'" using r p by (blast intro: grows_trans)
      show ?thesis
      proof (cases "o2 = Continue")
        case o2: True
        then have "st2 = st1" "tx2 = limited n tx1" "f4 = f3" using r True by (auto simp: cut_short_def)
        with p g a i l o2 show ?thesis by (simp add: poll_events_once_rest)
      next
        case False
        then have o2: "o2 = ReceiverDropped" "n \<le> length (ch_sent tx1)" using r True by (auto simp: cut_short_def)
        with cut_short_grows [of n o1 st1 tx1 f3 st2 tx2 f4 tx'] r p g a i l show ?thesis by (simp add: poll_events_once_rest)
      qed
    qed
  qed
qed

lemma limited_loop:
  assumes "ch_budget tx = None" "follow_loop path rs st tx f = (b, st', tx', f')"
  shows "grows tx tx' \<and> fst (snd (snd (follow_loop path rs st (limited n tx) f))) = limited n tx'"
  using assms
proof (induction rs arbitrary: st tx f b st' tx' f')
  case Nil
  then show ?case by (auto simp: grows_refl)
next
  case (Cons r rs)
  obtain o1 st1 tx1 f1 where u: "poll_events_once path (fr_mid r) st tx (fr_env r f) = (o1, st1, tx1, f1)" by (metis surj_pair)
  obtain o2 st2 tx2 f2 where l: "poll_events_once path (fr_mid r) st (limited n tx) (fr_env r f) = (o2, st2, tx2, f2)" by (metis surj_pair)
  note c = limited_poll [OF Cons.prems(1) u, of n, unfolded l]
  then have open1: "ch_budget tx1 = None" by (simp add: grows_def)
  have g: "grows tx1 tx'"
  proof (cases o1)
    case Continue
    obtain o3 st3 tx3 f3 where "poll_events_once path (fr_mid r) st1 tx1 (fr_final_env r f1) = (o3, st3, tx3, f3)" by (metis surj_pair)
    with limited_poll [OF open1 this, of n] Cons.IH [OF open1] Cons.prems(2) u Continue show ?thesis by (cases "fr_wake r") auto
  qed (use Cons.prems(2) u open1 in \<open>auto simp: grows_refl grows_sent\<close>)
  have t: "grows tx tx'" using c g by (blast intro: grows_trans)
  show ?case
  proof (cases "o2 = o1 \<and> st2 = st1 \<and> f2 = f1")
    case False
    then have "o2 = ReceiverDropped" "n \<le> length (ch_sent tx1)" "tx2 = limited n tx1" using c by (auto simp: cut_short_def)
    with limited_full [OF g] t l show ?thesis by simp
  next
    case True
    then have tx2: "tx2 = limited n tx1" using c by (simp add: cut_short_def)
    show ?thesis
    proof (cases o1)
      case Continue
      obtain o3 st3 tx3 f3 where "poll_events_once path (fr_mid r) st1 tx1 (fr_final_env r f1) = (o3, st3, tx3, f3)" by (metis surj_pair)
      with limited_poll [OF open1 this, of n] Cons.IH [OF open1] Cons.prems(2) u l True tx2 t Continue show ?thesis
        by (cases "fr_wake r") (auto simp: cut_short_def split: prod.splits)
    qed (use Cons.prems(2) u l True tx2 t open1 in \<open>auto simp: limited_chan_send\<close>)
  qed
qed

text \<open>A task whose reader leaves after \<open>n\<close> entries has sent the first \<open>n\<close> entries and no others.\<close>

lemma reader_leaves:
  "case follow_loop path rs st \<lparr>ch_sent = [], ch_budget = Some n\<rparr> f of
     (_, _, tx, _) \<Rightarrow> ch_sent tx = take n (ch_sent (fst (snd (snd (follow_loop path rs st \<lparr>ch_sent = [], ch_budget = None\<rparr> f)))))"
proof -
  let ?tx = "\<lparr>ch_sent = [], ch_budget = None\<rparr> :: chan"
  obtain b st' tx' f' where u: "follow_loop path rs st ?tx f = (b, st', tx', f')" by (metis surj_pair)
  have "limited n ?tx = \<lparr>ch_sent = [], ch_budget = Some n\<rparr>" by (simp add: limited_def)
  with limited_loop [OF _ u, of n] u show ?thesis by (auto simp: limited_def split: prod.splits)
qed

section \<open>Properties\<close>


definition hi_rounds :: "follow_round list" where
  "hi_rounds =
     [\<lparr>fr_env = (\<lambda>f. if content f ''/e'' = None then snd (fs_write ''/e'' (''5 o 2 hi'' @ [newline]) f) else f), fr_mid = (\<lambda>f. f),
       fr_wake = Slept, fr_final_env = (\<lambda>f. f)\<rparr>,
      \<lparr>fr_env = (\<lambda>f. f), fr_mid = (\<lambda>f. f), fr_wake = Stop_signal, fr_final_env = (\<lambda>f. f)\<rparr>]"

lemma hi_rounds_extend:
  "\<forall>r\<in>set hi_rounds. extends_live ''/e'' (fr_env r) \<and> extends_live ''/e'' (fr_final_env r) \<and> fr_mid r = (\<lambda>f. f)"
proof -
  obtain p where "''5 o 2 hi'' @ [newline] = p @ snd (decode_all (''5 o 2 hi'' @ [newline]))"
    using decode_all_remainder by blast
  then have "length (snd (decode_all (''5 o 2 hi'' @ [newline]))) \<le> length (''5 o 2 hi'' @ [newline])"
    by (metis le_add2 length_append)
  then have "\<not> stuck (snd (decode_all (''5 o 2 hi'' @ [newline])))" by (simp add: stuck_def MAX_RECORD_BYTES_def)
  then have "extends_live ''/e'' (\<lambda>f. if content f ''/e'' = None then snd (fs_write ''/e'' (''5 o 2 hi'' @ [newline]) f) else f)"
    by (auto simp: extends_live_def fs_write_def live_bytes_def content_def create_empty_def)
  moreover have "extends_live ''/e'' (\<lambda>f. f)" by (simp add: extends_live_def)
  ultimately show ?thesis by (simp add: hi_rounds_def)
qed


end
