(* ===== verification/Client_Api.thy ===== *)
theory Client_Api
  imports Clone Image Readiness Exit_Watcher Log_Channel Port_Forward
begin

text \<open>
  The remaining methods of \<^verbatim>\<open>Client\<close> (src/src/client.rs): its namespace, the header every request
  carries, the server version, the cache, the log streams, and the methods that pass their
  arguments, or default options, on to the function of a component. The other methods are in
  \<open>Client_State\<close> and \<open>Task\<close>.
\<close>

section \<open>Model\<close>

text \<open>\<open>None\<close> is the panic of \<^verbatim>\<open>expect\<close>.\<close>

definition with_namespace :: "'d platform \<Rightarrow> string \<Rightarrow> string option" where
  "with_namespace P namespace = (case try_with_namespace P namespace of Inr ns \<Rightarrow> Some ns | Inl _ \<Rightarrow> None)"

definition ns_req :: "'d platform \<Rightarrow> string \<Rightarrow> 'm \<Rightarrow> ((string \<times> string) list \<times> 'm) option" where
  "ns_req P namespace inner =
     (if metadata_value_ok P namespace then Some ([(''containerd-namespace'', namespace)], inner) else None)"

definition server_version :: "'d platform \<Rightarrow> ('d, string) op" where
  "server_version P = call (server_version_rpc P) (\<lambda>s. into_crate_error s ''server_version'')"

definition image_cache_len :: "'d world \<Rightarrow> nat" where
  "image_cache_len w = card (dom (image_metadata_cache w))"

text \<open>A follower, as a function of the rounds that its task will make and of the files at its start.\<close>

definition container_logs_stream :: "'d platform \<Rightarrow> string \<Rightarrow> (follow_round list \<Rightarrow> fs \<Rightarrow> log_follower) result" where
  "container_logs_stream P container_id =
     result_bind (events_path_for (home_dir P) container_id) (\<lambda>path. Inr (follower_start path))"

text \<open>The follower together with the watcher that may stop it.\<close>

definition container_logs_stream_until_exit ::
  "'d platform \<Rightarrow> string \<Rightarrow> ((follow_round list \<Rightarrow> fs \<Rightarrow> log_follower) \<times> watch_state) result" where
  "container_logs_stream_until_exit P container_id =
     result_bind (events_path_for (home_dir P) container_id) (\<lambda>path. Inr (start_with_stop path, watch_init))"

definition client_clone_container :: "'d platform \<Rightarrow> string \<Rightarrow> container_id \<Rightarrow> string \<Rightarrow> ('d, container_id) prog" where
  "client_clone_container P ns src dst_name = clone_container P ns src dst_name default_clone_opts"

definition client_snapshot_container :: "'d platform \<Rightarrow> string \<Rightarrow> container_id \<Rightarrow> string \<Rightarrow> ('d, unit) prog" where
  "client_snapshot_container P ns src name =
     snapshot_container P ns src name default_snapshot"

definition client_restore_container :: "'d platform \<Rightarrow> string \<Rightarrow> string \<Rightarrow> string \<Rightarrow> ('d, container_id) op" where
  "client_restore_container P ns snapshot_name dst_name = restore_container P ns snapshot_name dst_name default_restore"

definition client_reset_to_snapshot :: "'d platform \<Rightarrow> string \<Rightarrow> container_id \<Rightarrow> string \<Rightarrow> ('d, unit) prog" where
  "client_reset_to_snapshot P ns container_id snapshot_name = reset_to_snapshot P ns container_id snapshot_name default_reset"

text \<open>The methods that delegate.\<close>

definition client_pull_image :: "'d platform \<Rightarrow> string \<Rightarrow> string \<Rightarrow> ('d, unit) op" where
  "client_pull_image P ns img = pull_image P ns img"

definition client_create_container :: "'d platform \<Rightarrow> string \<Rightarrow> string \<Rightarrow> string \<Rightarrow> create_opts \<Rightarrow> ('d, container_id) op" where
  "client_create_container P ns name img opts = create_container P ns name img opts"

definition client_resolve_name :: "'d platform \<Rightarrow> string \<Rightarrow> string \<Rightarrow> ('d, container_id) op" where
  "client_resolve_name P ns name = resolve_name P ns name"

definition client_stop_container :: "'d platform \<Rightarrow> string \<Rightarrow> container_id \<Rightarrow> duration \<Rightarrow> ('d, unit) prog" where
  "client_stop_container P ns container_id timeout = stop_container P ns (as_str container_id) timeout"

definition client_inspect_container :: "'d platform \<Rightarrow> string \<Rightarrow> container_id \<Rightarrow> ('d, container_info) op" where
  "client_inspect_container P ns container_id = inspect_container P ns (as_str container_id)"

definition client_list_containers :: "'d platform \<Rightarrow> string \<Rightarrow> string list \<Rightarrow> ('d, container_info list) op" where
  "client_list_containers P ns label_filters = list_containers P ns label_filters"

definition client_start_port_forward :: "'d platform \<Rightarrow> container_id \<Rightarrow> u16 \<Rightarrow> u16 \<Rightarrow> port_forward_opts \<Rightarrow> ('d, handle) op" where
  "client_start_port_forward P container_id host_port container_port opts =
     start_port_forward P (as_str container_id) host_port container_port opts"

definition client_probe_health :: "'d platform \<Rightarrow> string \<Rightarrow> shim \<Rightarrow> 'd timer \<Rightarrow> container_id \<Rightarrow> ('d, health_status) op" where
  "client_probe_health P ns shim within container_id = probe_health P ns shim within (as_str container_id)"

definition client_exec :: "'d platform \<Rightarrow> string \<Rightarrow> shim \<Rightarrow> container_id \<Rightarrow> string list \<Rightarrow> ('d, exec_output) op" where
  "client_exec P ns shim container_id command = exec P ns shim (as_str container_id) command"

definition client_container_logs :: "'d platform \<Rightarrow> container_id \<Rightarrow> ('d, log_entry list) op" where
  "client_container_logs P container_id = with_files (container_logs (home_dir P) (as_str container_id))"

definition client_container_logs_filtered :: "'d platform \<Rightarrow> container_id \<Rightarrow> logs_filter \<Rightarrow> ('d, log_entry list) op" where
  "client_container_logs_filtered P container_id flt = with_files (container_logs_filtered (home_dir P) (as_str container_id) flt)"

definition client_pause_container :: "'d platform \<Rightarrow> string \<Rightarrow> container_id \<Rightarrow> ('d, unit) op" where
  "client_pause_container P ns container_id = pause_container P ns (as_str container_id)"

definition client_unpause_container :: "'d platform \<Rightarrow> string \<Rightarrow> container_id \<Rightarrow> ('d, unit) op" where
  "client_unpause_container P ns container_id = unpause_container P ns (as_str container_id)"

definition client_wait_ready ::
  "'d platform \<Rightarrow> string \<Rightarrow> shim \<Rightarrow> 'd timer \<Rightarrow> 'd connector \<Rightarrow> container_id \<Rightarrow> duration \<Rightarrow> readiness_strategy \<Rightarrow> ('d, unit) prog" where
  "client_wait_ready P ns shim within tcp_connect container_id timeout strategy =
     wait_ready P ns shim within tcp_connect (as_str container_id) timeout strategy"

definition client_wait_for_exit :: "'d platform \<Rightarrow> string \<Rightarrow> container_id \<Rightarrow> duration \<Rightarrow> ('d, int) prog" where
  "client_wait_for_exit P ns container_id timeout = wait_for_exit P ns (as_str container_id) timeout"

definition clone_container_with_opts ::
  "'d platform \<Rightarrow> string \<Rightarrow> container_id \<Rightarrow> string \<Rightarrow> clone_opts \<Rightarrow> ('d, container_id) prog" where
  "clone_container_with_opts P ns src dst_name opts = clone_container P ns src dst_name opts"

definition snapshot_container_with_opts ::
  "'d platform \<Rightarrow> string \<Rightarrow> container_id \<Rightarrow> string \<Rightarrow> snapshot_opts \<Rightarrow> ('d, unit) prog" where
  "snapshot_container_with_opts P ns src name opts = snapshot_container P ns src name opts"

definition restore_container_with_opts ::
  "'d platform \<Rightarrow> string \<Rightarrow> string \<Rightarrow> string \<Rightarrow> restore_opts \<Rightarrow> ('d, container_id) op" where
  "restore_container_with_opts P ns snapshot_name dst_name opts = restore_container P ns snapshot_name dst_name opts"

definition reset_to_snapshot_with_opts :: "'d platform \<Rightarrow> string \<Rightarrow> container_id \<Rightarrow> string \<Rightarrow> reset_opts \<Rightarrow> ('d, unit) prog" where
  "reset_to_snapshot_with_opts P ns container_id snapshot_name opts = reset_to_snapshot P ns container_id snapshot_name opts"

definition client_list_snapshots :: "'d platform \<Rightarrow> string \<Rightarrow> ('d, snapshot_info list) op" where
  "client_list_snapshots P ns = list_snapshots P ns"

definition client_delete_snapshot :: "'d platform \<Rightarrow> string \<Rightarrow> string \<Rightarrow> ('d, unit) op" where
  "client_delete_snapshot P ns name = delete_snapshot P ns name"

lemmas client_delegates = client_pull_image_def client_create_container_def client_resolve_name_def client_stop_container_def
  client_inspect_container_def client_list_containers_def client_start_port_forward_def client_probe_health_def client_exec_def
  client_container_logs_def client_container_logs_filtered_def client_pause_container_def client_unpause_container_def
  client_wait_ready_def client_wait_for_exit_def clone_container_with_opts_def snapshot_container_with_opts_def
  restore_container_with_opts_def reset_to_snapshot_with_opts_def client_list_snapshots_def client_delete_snapshot_def
  client_clone_container_def client_snapshot_container_def client_restore_container_def client_reset_to_snapshot_def

section \<open>Namespaces\<close>

text \<open>The namespaces a client can come to hold: the one it is made with, and those it is moved to.\<close>

inductive client_namespace :: "'d platform \<Rightarrow> string \<Rightarrow> bool" for P :: "'d platform" where
  made: "client_namespace P (fst (from_parts (d :: 'd) fl))"
| moved: "client_namespace P ns \<Longrightarrow> try_with_namespace P ns' = Inr ns'' \<Longrightarrow> client_namespace P ns''"
| moved_or_panicked: "client_namespace P ns \<Longrightarrow> with_namespace P ns' = Some ns'' \<Longrightarrow> client_namespace P ns''"

lemma try_with_namespace_ok: "try_with_namespace P ns = Inr ns' \<Longrightarrow> ns' = ns \<and> metadata_value_ok P ns"
  by (simp add: try_with_namespace_def split: if_splits)

text \<open>
  C37: the namespace of a client is always one that a request can carry: from the default namespace, by
  whatever moves to other namespaces, a client comes to hold only valid header values, so that the
  \<^verbatim>\<open>expect\<close> in \<^verbatim>\<open>ns_req\<close> never panics and every request has exactly the one header with the client's
  namespace.
\<close>

theorem ns_req_never_panics:
  assumes "client_namespace P ns" "metadata_value_ok P ''default''"
  shows "ns_req P ns inner = Some ([(''containerd-namespace'', ns)], inner)"
proof -
  from assms have "metadata_value_ok P ns"
    by (induction rule: client_namespace.induct)
      (auto simp: from_parts_def with_namespace_def dest: try_with_namespace_ok split: sum.splits)
  then show ?thesis by (simp add: ns_req_def)
qed

theorem ns_req_never_panics_witness:
  "ns_req rd_platform ''tests'' (42 :: nat) = Some ([(''containerd-namespace'', ''tests'')], 42)"
proof -
  have "client_namespace rd_platform ''tests''"
    by (rule client_namespace.moved [OF client_namespace.made [where d = rd_init and fl = empty_fs], where ns' = "''tests''"])
      (simp add: try_with_namespace_def rd_calls)
  then show ?thesis by (rule ns_req_never_panics) (simp add: rd_calls)
qed

section \<open>The image cache\<close>

lemma image_cache_len_cleared: "image_cache_len (clear_image_cache w) = 0"
  by (simp add: image_cache_len_def clear_image_cache_def)

lemma image_cache_len_stored:
  "finite (dom (image_metadata_cache w)) \<Longrightarrow> image_cache_len (store_image_metadata g md w) =
    (if lookup_image_metadata g w = None then Suc (image_cache_len w) else image_cache_len w)"
  by (auto simp: image_cache_len_def store_image_metadata_def lookup_image_metadata_def insert_absorb domIff)

end
