(* ===== verification/Session.thy ===== *)
theory Session
  imports Client_Api
begin

text \<open>
  The methods of a client as requests, and sequences of them: the composition of the components.

  \<open>dispatch\<close> sends a request to the method of src/src/client.rs that serves it. A session is what a
  program using the library does with one client: one request after the other, whatever each answers.
\<close>

section \<open>Model\<close>

datatype request =
  Pull_Image string
| Create string string create_opts
| Start container_id
| Stop container_id duration
| Delete container_id duration
| Inspect_One container_id
| List_All "string list"
| Forward container_id u16 u16 port_forward_opts
| Logs container_id logs_filter
| Pause container_id
| Unpause container_id
| Exec_In container_id "string list"
| Wait_Exit container_id duration
| Wait_Ready container_id duration readiness_strategy
| Probe container_id
| Clone_As container_id string clone_opts
| Snapshot_As container_id string snapshot_opts
| Restore_As string string restore_opts
| Reset_To container_id string reset_opts
| List_Saved
| Delete_Saved string

text \<open>The runtime a client runs in: the shim's writes, the timer and the connector.\<close>

record 'd runtime =
  rt_shim :: shim
  rt_within :: "'d timer"
  rt_connect :: "'d connector"

definition void :: "('d, 'a) prog \<Rightarrow> ('d, unit) prog" where
  "void m = p_bind m (\<lambda>_. p_lift (ret ()))"

fun dispatch :: "'d platform \<Rightarrow> 'd runtime \<Rightarrow> string \<Rightarrow> request \<Rightarrow> ('d, unit) prog" where
  "dispatch P R ns (Pull_Image img) = p_lift (client_pull_image P ns img)"
| "dispatch P R ns (Create name img opts) = void (p_lift (client_create_container P ns name img opts))"
| "dispatch P R ns (Start c) = void (p_lift (client_start_container P ns c))"
| "dispatch P R ns (Stop c timeout) = client_stop_container P ns c timeout"
| "dispatch P R ns (Delete c timeout) = client_delete_container P ns c timeout"
| "dispatch P R ns (Inspect_One c) = void (p_lift (client_inspect_container P ns c))"
| "dispatch P R ns (List_All filters) = void (p_lift (client_list_containers P ns filters))"
| "dispatch P R ns (Forward c host_port container_port opts) = p_lift (start_managed_port_forward P (as_str c) host_port container_port opts)"
| "dispatch P R ns (Logs c flt) = void (p_lift (client_container_logs_filtered P c flt))"
| "dispatch P R ns (Pause c) = p_lift (client_pause_container P ns c)"
| "dispatch P R ns (Unpause c) = p_lift (client_unpause_container P ns c)"
| "dispatch P R ns (Exec_In c command) = void (p_lift (client_exec P ns (rt_shim R) c command))"
| "dispatch P R ns (Wait_Exit c timeout) = void (client_wait_for_exit P ns c timeout)"
| "dispatch P R ns (Wait_Ready c timeout strategy) = client_wait_ready P ns (rt_shim R) (rt_within R) (rt_connect R) c timeout strategy"
| "dispatch P R ns (Probe c) = void (p_lift (client_probe_health P ns (rt_shim R) (rt_within R) c))"
| "dispatch P R ns (Clone_As src dst opts) = void (clone_container_with_opts P ns src dst opts)"
| "dispatch P R ns (Snapshot_As src name opts) = snapshot_container_with_opts P ns src name opts"
| "dispatch P R ns (Restore_As name dst opts) = void (p_lift (restore_container_with_opts P ns name dst opts))"
| "dispatch P R ns (Reset_To c name opts) = reset_to_snapshot_with_opts P ns c name opts"
| "dispatch P R ns List_Saved = void (p_lift (client_list_snapshots P ns))"
| "dispatch P R ns (Delete_Saved name) = p_lift (client_delete_snapshot P ns name)"

text \<open>
  The tasks and records that a request may create, change or remove, and the layers that it names.
\<close>

fun touches :: "request \<Rightarrow> touch set" where
  "touches (Create _ _ opts) = Layer_Used ` set_option (co_from_existing_snapshot opts)"
| "touches (Start c) = {Task_Made (as_str c)}"
| "touches (Delete c _) = {Task_Removed (as_str c), Record_Removed (as_str c), Layer_Lost (snapshot_key_for (as_str c))}"
| "touches (Pause c) = {Task_Paused (as_str c)}"
| "touches (Unpause c) = {Task_Resumed (as_str c)}"
| "touches (Clone_As c _ _) = {Task_Made (as_str c), Task_Removed (as_str c)}"
| "touches (Snapshot_As c name _) = {Task_Made (as_str c), Task_Removed (as_str c), Layer_Lost name}"
| "touches (Reset_To c _ _) = {Task_Made (as_str c), Task_Removed (as_str c)}"
| "touches (Delete_Saved name) = {Layer_Lost name}"
| "touches _ = {}"

text \<open>The containers whose layer a request commits or removes, whatever key their record names.\<close>

fun opens :: "request \<Rightarrow> string set" where
  "opens (Clone_As c _ _) = {as_str c}"
| "opens (Snapshot_As c _ _) = {as_str c}"
| "opens (Reset_To c _ _) = {as_str c}"
| "opens _ = {}"

fun session :: "'d platform \<Rightarrow> 'd runtime \<Rightarrow> string \<Rightarrow> request list \<Rightarrow> 'd world \<Rightarrow> 'd world option" where
  "session P R ns [] w = Some w"
| "session P R ns (r # rs) w = (case dispatch P R ns r w of None \<Rightarrow> None | Some (_, w') \<Rightarrow> session P R ns rs w')"

section \<open>What requests keep\<close>

text \<open>
  What the sessions rely on in the runtime: under a timeout a future makes some of its calls, and
  otherwise the runtime lets time pass. A property of the daemon that time and the future keep, the
  future under a timeout keeps.
\<close>

definition runtime_neutral :: "'d platform \<Rightarrow> 'd runtime \<Rightarrow> bool" where
  "runtime_neutral P R \<longleftrightarrow> (\<forall>I. (\<forall>t d. I d \<longrightarrow> I (sleep P t d)) \<longrightarrow>
     (\<forall>d m. keeps I m \<longrightarrow> keeps I (rt_within R d m)) \<and> (\<forall>d p. keeps I (rt_connect R d p)))"

lemma runtime_neutral_steady:
  assumes "clock_sleeps P" "runtime_neutral P R"
  shows "runtime_steady P (rt_within R) (rt_connect R)"
proof -
  have "t \<le> now P d \<Longrightarrow> t \<le> now P (sleep P x d)" for t d x
    using assms(1) unfolding clock_sleeps_def by (meson add_leE order_trans)
  then have "(\<forall>d m. keeps (\<lambda>d. t \<le> now P d) m \<longrightarrow> keeps (\<lambda>d. t \<le> now P d) (rt_within R d m))
      \<and> (\<forall>d p. keeps (\<lambda>d. t \<le> now P d) (rt_connect R d p))" for t
    using assms(2) unfolding runtime_neutral_def by simp
  then show ?thesis by (simp add: runtime_steady_def steady_keeps)
qed

lemma p_keeps_void [keeps_intros]: "p_keeps I m \<Longrightarrow> p_keeps I (void m)"
  unfolding void_def by (intro keeps_intros)

text \<open>The calls, those about tasks and records as far as they are in \<open>A\<close>, keep \<open>I\<close>, and so does the passing of time.\<close>

definition timed_keep :: "'d platform \<Rightarrow> string \<Rightarrow> touch set \<Rightarrow> ('d \<Rightarrow> bool) \<Rightarrow> bool" where
  "timed_keep P ns A I \<longleftrightarrow> calls_keep P ns A I \<and> (\<forall>t d. I d \<longrightarrow> I (sleep P t d))"

lemma timed_keepD:
  "timed_keep P ns A I \<Longrightarrow> calls_keep P ns A I" "timed_keep P ns A I \<Longrightarrow> I d \<Longrightarrow> I (sleep P t d)"
  "timed_keep P ns A I \<Longrightarrow> rpc_keeps I (\<lambda>s. ((), sleep P t s))"
  by (simp_all add: timed_keep_def rpc_keeps_def)

lemma keeps_stop_container:
  assumes "timed_keep P ns A I"
  shows "p_keeps I (stop_container P ns c timeout)"
proof -
  note k = task_keeps [OF timed_keepD(1) [OF assms]]
  have w: "p_keeps I (wait_for_task_stop P ns c t)" for t
    unfolding wait_for_task_stop_def [abs_def] by (intro keeps_intros k timed_keepD(3) [OF assms])
  have "p_keeps I (\<lambda>w. case is_task_running P ns c w of (running, w') \<Rightarrow>
      if running then p_try (p_lift (kill_task P ns c SIGKILL)) (\<lambda>_. wait_for_task_stop P ns c t) w' else Some (Inr (), w'))" for t
  proof (rule p_keepsI)
    fix w r w' assume i: "I (daemon w)"
      and r: "(case is_task_running P ns c w of (running, w') \<Rightarrow>
        if running then p_try (p_lift (kill_task P ns c SIGKILL)) (\<lambda>_. wait_for_task_stop P ns c t) w' else Some (Inr (), w')) = Some (r, w')"
    obtain b v where v: "is_task_running P ns c w = (b, v)" by fastforce
    have "I (daemon v)" using keepsD [OF k(8) v i] .
    moreover have "p_keeps I (p_try (p_lift (kill_task P ns c SIGKILL)) (\<lambda>_. wait_for_task_stop P ns c t))"
      by (intro keeps_intros w k)
    ultimately show "I (daemon w')" using r v by (auto split: if_splits dest: p_keepsD)
  qed
  then show ?thesis
    unfolding stop_container_def Let_def by (intro keeps_intros w k)
qed

lemma keeps_retry_delete_task:
  assumes "timed_keep P ns A I" "Task_Removed c \<in> A"
  shows "p_keeps I (retry_delete_task P ns c timeout)"
  unfolding retry_delete_task_def [abs_def]
proof (rule p_keepsI)
  fix w r w' assume i: "I (daemon w)"
    and r: "retry_loop P (from_millis 50) (retry_delete_round P ns c (now P (daemon w)) timeout) w = Some (r, w')"
  have "p_keeps I (retry_loop P (from_millis 50) (retry_delete_round P ns c (now P (daemon w)) timeout))"
    by (intro keeps_intros keeps_retry_delete_round [OF timed_keepD(1) [OF assms(1)] assms(2)] timed_keepD(3) [OF assms(1)])
  from p_keepsD [OF this r i] show "I (daemon w')" .
qed

lemma keeps_wait_for_exit:
  assumes "timed_keep P ns A I"
  shows "p_keeps I (wait_for_exit P ns c timeout)"
  unfolding wait_for_exit_def [abs_def]
proof (rule p_keepsI)
  fix w r w' assume i: "I (daemon w)"
    and r: "retry_loop P (from_millis 100) (wait_for_exit_round P ns c (now P (daemon w)) timeout) w = Some (r, w')"
  have "p_keeps I (retry_loop P (from_millis 100) (wait_for_exit_round P ns c (now P (daemon w)) timeout))"
    by (intro keeps_intros keeps_wait_for_exit_round [OF timed_keepD(1) [OF assms]] timed_keepD(3) [OF assms])
  from p_keepsD [OF this r i] show "I (daemon w')" .
qed

lemma keeps_delete_container:
  assumes "timed_keep P ns A I" "Task_Removed (as_str c) \<in> A" "Record_Removed (as_str c) \<in> A"
    "Layer_Lost (snapshot_key_for (as_str c)) \<in> A"
  shows "p_keeps I (client_delete_container P ns c timeout)"
proof -
  note k = keeps_stop_container [OF assms(1)] keeps_task_deleted [OF timed_keepD(1) [OF assms(1)] assms(2)]
    keeps_task_record_gone [OF timed_keepD(1) [OF assms(1)] assms(2)] keeps_remove_container [OF timed_keepD(1) [OF assms(1)] assms(3,4)]
    keeps_container_record_gone [OF timed_keepD(1) [OF assms(1)] assms(3,4)]
  have "p_keeps I (delete_container P ns (as_str c) timeout)"
    unfolding delete_container_def Let_def by (intro keeps_intros k timed_keepD(3) [OF assms(1)])
  then show ?thesis
    by (auto simp: p_keeps_def client_delete_container_def)
qed

lemma keeps_quiesce:
  assumes "timed_keep P ns A I" "Task_Removed c \<in> A"
  shows "p_keeps I (quiesce P ns c running)"
  unfolding quiesce_def by (intro keeps_intros keeps_stop_container [OF assms(1)] keeps_retry_delete_task [OF assms])

lemma runtime_neutralD:
  assumes "runtime_neutral P R" "timed_keep P ns A I"
  shows "keeps I m \<Longrightarrow> keeps I (rt_within R d m)" "keeps I (rt_connect R d p)"
proof -
  have "(\<forall>t d. I d \<longrightarrow> I (sleep P t d))" using assms(2) by (simp add: timed_keep_def)
  with assms(1) [unfolded runtime_neutral_def, THEN spec, of I]
  show "keeps I m \<Longrightarrow> keeps I (rt_within R d m)" "keeps I (rt_connect R d p)" by simp_all
qed

lemma keeps_run_check:
  assumes "timed_keep P ns A I" "runtime_neutral P R"
  shows "keeps I (run_check P ns (rt_shim R) (rt_within R) (rt_connect R) c check ct)"
proof -
  note e = keeps_exec [OF timed_keepD(1) [OF assms(1)]]
  note n = runtime_neutralD [OF assms(2,1)]
  note n = n(1) [OF e] n(2)
  show ?thesis
    by (intro keepsI)
      (auto simp: run_check_def dest: keepsD [OF e] keepsD [OF n(1)] keepsD [OF n(2)]
        split: resolved_check.splits option.splits prod.splits)
qed

lemma keeps_wait_ready:
  assumes "timed_keep P ns A I" "runtime_neutral P R"
  shows "p_keeps I (wait_ready P ns (rt_shim R) (rt_within R) (rt_connect R) c timeout strategy)"
  unfolding wait_ready_def
proof (intro keeps_intros, rule keeps_resolve_strategy [OF timed_keepD(1) [OF assms(1)]], unfold case_prod_beta Let_def, rule p_keepsI)
  fix x :: "resolved_check \<times> poll_timing" and w :: "'a world" and r w'
  let ?w1 = "if pt_start_period (snd x) \<noteq> 0 then sleep_op P (pt_start_period (snd x)) w else w"
  let ?round = "ready_round P ns c (run_check P ns (rt_shim R) (rt_within R) (rt_connect R) c (fst x) (pt_check_timeout (snd x)))
      (now P (daemon ?w1)) timeout"
  assume i: "I (daemon w)" and r: "ready_loop P ?round (pt_use_backoff (snd x)) (pt_initial_interval (snd x)) ?w1 = Some (r, w')"
  have sl: "I (daemon (sleep_op P d v))" if "I (daemon v)" for d v
    using timed_keepD(2) [OF assms(1) that] by (simp add: sleep_op_def)
  show "I (daemon w')"
  proof (rule awaiting.loop_invariant [where I = "\<lambda>w. I (daemon w)", OF r])
    show "I (daemon ?w1)" using i sl by simp
    show "I (daemon (snd (?round v)))" if "I (daemon v)" for v
    proof -
      obtain q v1 where v1: "inspect_container P ns c v = (q, v1)" by fastforce
      have "I (daemon v1)" using keepsD [OF keeps_inspect [OF timed_keepD(1) [OF assms(1)]] v1 that] .
      moreover have "I (daemon v2)"
        if "run_check P ns (rt_shim R) (rt_within R) (rt_connect R) c (fst x) (pt_check_timeout (snd x)) v1 = (b, v2)" for b v2
        using keepsD [OF keeps_run_check [OF assms] that] calculation .
      ultimately show ?thesis using v1 by (auto simp: ready_round_def split: sum.split option.split prod.split)
    qed
  qed (rule sl)
qed

lemma keeps_probe_health:
  assumes "timed_keep P ns A I" "runtime_neutral P R"
  shows "keeps I (probe_health P ns (rt_shim R) (rt_within R) c)"
proof -
  note k = timed_keepD(1) [OF assms(1)]
  have "keeps I (rt_within R d (exec P ns shim c cmd))" for d shim cmd
    by (intro runtime_neutralD [OF assms(2,1)] keeps_exec [OF k])
  then have "keeps I (case hc of None \<Rightarrow> ret NoHealthcheck | Some hc \<Rightarrow>
      (\<lambda>w. case rt_within R (hc_timeout hc) (exec P ns (rt_shim R) c (hc_test hc)) w of (q, w') \<Rightarrow> (Inr (classify_probe P ns c hc q w'), w')))" for hc
    by (cases hc) (auto simp: keeps_def case_prod_beta)
  then show ?thesis
    unfolding probe_health_def by (intro keeps_intros keeps_inspect [OF k] keeps_get_raw_config [OF k])
qed

lemma keeps_listing:
  assumes "calls_keep P ns A I"
  shows "keeps I (list_containers P ns fl)" "keeps I (list_snapshots P ns)" "Layer_Lost n \<in> A \<Longrightarrow> keeps I (delete_snapshot P ns n)"
    "keeps I (pull_image P ns img)" "keeps I (start_managed_port_forward P c hp cp fo)"
proof -
  note k = calls_keepD [OF assms]
  have "keeps I (\<lambda>w. case fetch_task_map P ns w of (ts, w') \<Rightarrow> (f ts, w'))" for f :: "(string \<rightharpoonup> task_info) \<Rightarrow> container_info list result"
    by (rule keepsI) (auto simp: fetch_task_map_def dest: keepsD [OF keeps_rpc_call [OF k(16)]] split: prod.splits sum.splits)
  then show "keeps I (list_containers P ns fl)" unfolding list_containers_def by (intro keeps_intros k)
  show "keeps I (list_snapshots P ns)" unfolding list_snapshots_def by (intro keeps_intros k)
  show "Layer_Lost n \<in> A \<Longrightarrow> keeps I (delete_snapshot P ns n)" unfolding delete_snapshot_def by (intro keeps_intros k keeps_look_ups [OF assms])
  show "keeps I (pull_image P ns img)"
    unfolding pull_image_def image_exists_def by (intro keeps_intros k) (auto intro!: keeps_intros split: sum.split)
  have "keeps I (start_port_forward P c hp cp fo)"
    unfolding start_port_forward_def by (auto intro!: keeps_intros k split: sum.split listen_error.split)
  then show "keeps I (start_managed_port_forward P c hp cp fo)"
    unfolding start_managed_port_forward_def by (intro keeps_intros) (auto intro: keeps_fun)
qed

lemma keeps_creating:
  assumes "calls_keep P ns A I" "fresh_layers P \<subseteq> A"
  shows "Layer_Used ` set_option (co_from_existing_snapshot opts) \<subseteq> A \<Longrightarrow> keeps I (create_container P ns name img opts)"
    "keeps I (restore_container P ns n dst ropts)"
proof -
  note k = calls_keepD [OF assms(1)]
  note f = fresh_layersD [OF assms(2)]
  have "create_touches u opts \<subseteq> A"
    if "u \<in> range (\<lambda>d. fst (uuid_v4 P d))" "Layer_Used ` set_option (co_from_existing_snapshot opts) \<subseteq> A" for u
    using that f by (auto simp: create_touches_def split: option.split)
  then show "Layer_Used ` set_option (co_from_existing_snapshot opts) \<subseteq> A \<Longrightarrow> keeps I (create_container P ns name img opts)"
    unfolding create_container_def by (intro keeps_intros(1-5) keeps_with_daemon_post keeps_create [OF assms(1)] k) simp_all
  have into: "keeps I (restore_into P ns n dst ropts im u)" if "u \<in> range (\<lambda>d. fst (uuid_v4 P d))" for im u
    unfolding restore_into_def Let_def using f [OF that]
    by (intro keeps_intros k keeps_create [OF assms(1)])
      (auto intro!: keeps_intros k simp: create_touches_def restore_create_opts_def split: sum.split)
  show "keeps I (restore_container P ns n dst ropts)"
    unfolding restore_container_def
    by (intro keeps_if keeps_fail keeps_bind keeps_look_ups [OF assms(1)] keeps_with_daemon_post k into)
qed

lemma keeps_copying:
  assumes "timed_keep P ns A I" "Task_Made (as_str c) \<in> A" "Task_Removed (as_str c) \<in> A" "layers_in P ns A I (as_str c)"
  shows "fresh_layers P \<subseteq> A \<Longrightarrow> p_keeps I (clone_container P ns c dst opts)"
    "Layer_Lost n \<in> A \<Longrightarrow> p_keeps I (snapshot_container P ns c n sopts)"
    "p_keeps I (reset_to_snapshot P ns c n restart)"
proof -
  note c = timed_keepD(1) [OF assms(1)]
  note k = keeps_inspect [OF c] keeps_quiesce [OF assms(1,3)] keeps_clone_inner [OF c assms(4)] keeps_start_container [OF c assms(2)]
    keeps_freeze [OF c assms(2,4)] keeps_look_ups [OF c] keeps_stop_container [OF assms(1)] keeps_retry_delete_task [OF assms(1,3)]
    keeps_reset_active [OF c timed_keepD(2) [OF assms(1)]]
  show "fresh_layers P \<subseteq> A \<Longrightarrow> p_keeps I (clone_container P ns c dst opts)" unfolding clone_container_def by (intro keeps_intros k)
  show "Layer_Lost n \<in> A \<Longrightarrow> p_keeps I (snapshot_container P ns c n sopts)" unfolding snapshot_container_def by (intro keeps_intros k)
  have stop: "keeps I (\<lambda>w. (Inr (), stop_managed_forwards (as_str c) w))" by (simp add: keeps_def stop_managed_forwards_def)
  show "p_keeps I (reset_to_snapshot P ns c n restart)"
    unfolding reset_to_snapshot_def
  proof (rule p_keeps_if [OF p_keeps_lift [OF keeps_fail]],
      rule p_keeps_bind_post [OF keeps_look_ups(2) [OF c] fetched_layer [OF assms(4)]], assumption, assumption)
  qed (intro keeps_intros k stop)
qed

text \<open>A request keeps what the calls about the tasks and records it touches keep.\<close>

lemma dispatch_keeps:
  assumes "timed_keep P ns A I" "runtime_neutral P R" "touches r \<subseteq> A" "fresh_layers P \<subseteq> A" "\<forall>c\<in>opens r. layers_in P ns A I c"
  shows "p_keeps I (dispatch P R ns r)"
proof -
  note c = timed_keepD(1) [OF assms(1)]
  note k = keeps_listing [OF c] keeps_creating [OF c assms(4)] keeps_inspect [OF c] keeps_wait_for_exit [OF assms(1)]
    keeps_stop_container [OF assms(1)]
  show ?thesis
    using assms(3-5)
    by (cases r)
      (auto intro!: keeps_intros k keeps_start_container [OF c] keeps_delete_container [OF assms(1)] keeps_exec [OF c]
        keeps_wait_ready [OF assms(1,2)] keeps_probe_health [OF assms(1,2)] keeps_copying [OF assms(1)]
        calls_keepD [OF c] simp: client_delegates pause_container_def unpause_container_def)
qed

section \<open>Sessions come to an end\<close>

lemma returns_void [returns_intros]: "returns P m \<Longrightarrow> returns P (void m)"
  unfolding void_def by (intro returns_intros) (simp_all add: steady_def)

text \<open>Requests whose poll interval does not come from an image.\<close>

fun own_pace :: "request \<Rightarrow> bool" where
  "own_pace (Wait_Ready _ _ strategy) = (strategy \<noteq> ImageHealthcheck)"
| "own_pace _ = True"

lemma returns_wait_ready:
  assumes "clock_sleeps P" "clock_monotone P ns" "runtime_neutral P R" "strategy \<noteq> ImageHealthcheck"
  shows "returns P (wait_ready P ns (rt_shim R) (rt_within R) (rt_connect R) c timeout strategy)"
  unfolding returns_def
proof
  fix w
  obtain check where "resolve_strategy P ns c strategy w = (Inr (check, default_timing), w)"
    using assms(4) by (cases strategy) (simp_all add: resolve_strategy_def)
  moreover have "0 < pt_initial_interval default_timing" by (simp add: default_timing_def readiness_consts)
  ultimately show "\<exists>r w'. wait_ready P ns (rt_shim R) (rt_within R) (rt_connect R) c timeout strategy w = Some (r, w')
      \<and> now P (daemon w) \<le> now P (daemon w')"
    using wait_ready_runs [OF assms(1,2) runtime_neutral_steady [OF assms(1,3)]] by metis
qed

lemma dispatch_returns:
  assumes "clock_sleeps P" "clock_monotone P ns" "runtime_neutral P R" "own_pace r"
  shows "returns P (dispatch P R ns r)"
proof -
  have sl: "t \<le> now P d \<Longrightarrow> t \<le> now P (sleep P x d)" for t d x
    using assms(1) unfolding clock_sleeps_def by (meson add_leE order_trans)
  note c = clock_monotoneD [OF assms(2)]
  have tk: "timed_keep P ns UNIV (\<lambda>d. t \<le> now P d)" for t using c sl by (simp add: timed_keep_def)
  note k = keeps_listing(1,2) [OF c] keeps_listing(3) [OF c UNIV_I] keeps_listing(4,5) [OF c] keeps_creating(1) [OF c subset_UNIV subset_UNIV]
    keeps_creating(2) [OF c subset_UNIV] keeps_inspect [OF c] keeps_start_container [OF c UNIV_I]
    keeps_exec [OF c] keeps_probe_health [OF tk assms(3)] keeps_call [OF calls_keepD(17) [OF c UNIV_I]]
    keeps_call [OF calls_keepD(18) [OF c UNIV_I]]
  have f: "steady P (with_files g)" for g :: "fs \<Rightarrow> log_entry list result \<times> fs" by (rule steadyI) (rule keeps_with_files)
  note s = f steadyI [OF k(1)] steadyI [OF k(2)] steadyI [OF k(3)] steadyI [OF k(4)] steadyI [OF k(5)] steadyI [OF k(6)]
    steadyI [OF k(7)] steadyI [OF k(8)] steadyI [OF k(9)] steadyI [OF k(10)] steadyI [OF k(11)]
    steadyI [OF k(12)] steadyI [OF k(13)]
  show ?thesis
    using assms(4)
    by (cases r) (auto intro!: returns_intros s returns_wait_ready assms simp: client_delegates pause_container_def unpause_container_def)
qed

end
