(* ===== verification/Lifecycle.thy ===== *)
theory Lifecycle
  imports Session
begin

text \<open>
  The life of a container under a session: an abstract machine with three kinds of state (no record,
  a record without a task, a record with a task in some status), the moves that each request may
  make it do, and the proof that sessions of the detailed model follow it.

  What it relies on in containerd is \<open>lifecycle_contract\<close>: a call makes a container do only the moves of
  its kind. Whatever is called, a task may exit, by itself or by a signal. A task that was created
  but not started yet counts as running, as in src/src/types.rs.
\<close>

section \<open>The abstract machine\<close>

datatype phase = No_Record | No_Task | Has_Task task_status

inductive move :: "string \<Rightarrow> touch set \<Rightarrow> phase \<Rightarrow> phase \<Rightarrow> bool" for c A where
  recorded: "move c A No_Record q"
| exited: "move c A (Has_Task s) (Has_Task Stopped)"
| made: "Task_Made c \<in> A \<Longrightarrow> move c A No_Task (Has_Task Running)"
| paused: "Task_Paused c \<in> A \<Longrightarrow> move c A (Has_Task Running) (Has_Task Paused)"
| resumed: "Task_Resumed c \<in> A \<Longrightarrow> move c A (Has_Task Paused) (Has_Task Running)"
| removed: "Task_Removed c \<in> A \<Longrightarrow> move c A (Has_Task Stopped) No_Task"
| forgotten: "Record_Removed c \<in> A \<Longrightarrow> move c A p No_Record"

inductive_cases move_stoppedE: "move c A (Has_Task Stopped) q"
inductive_cases move_no_taskE: "move c A No_Task q"
inductive_cases move_to_no_recordE: "move c A p No_Record"

lemmas moves = move.intros [THEN r_into_rtranclp [where r = "move c A" for c A]]

text \<open>A container's life under a sequence of requests: each lets it do moves of its own kinds, any number of them.\<close>

fun life :: "string \<Rightarrow> phase \<Rightarrow> request list \<Rightarrow> phase \<Rightarrow> bool" where
  "life c p [] q \<longleftrightarrow> q = p"
| "life c p (r # rs) q \<longleftrightarrow> (\<exists>p'. rtranclp (move c (touches r)) p p' \<and> life c p' rs q)"

definition exits :: "phase \<Rightarrow> phase \<Rightarrow> bool" where
  "exits p q \<longleftrightarrow> q = p \<or> (\<exists>s. p = Has_Task s) \<and> q = Has_Task Stopped"

lemma moves_invariant: "rtranclp (move c A) p q \<Longrightarrow> Q p \<Longrightarrow> (\<And>p q. move c A p q \<Longrightarrow> Q p \<Longrightarrow> Q q) \<Longrightarrow> Q q"
  by (induction rule: rtranclp_induct) auto

lemma life_invariant:
  assumes "life c p rs q" "Q p" "\<And>r p q. r \<in> set rs \<Longrightarrow> move c (touches r) p q \<Longrightarrow> Q p \<Longrightarrow> Q q"
  shows "Q q"
  using assms
proof (induction c p rs q rule: life.induct)
  case (2 c p r rs q)
  then obtain p' where p': "rtranclp (move c (touches r)) p p'" "life c p' rs q" by auto
  have step: "Q y" if "ra \<in> set (r # rs)" "move c (touches ra) x y" "Q x" for ra x y
    using 2(4) that .
  have "Q p'" by (rule moves_invariant [where Q = Q, OF p'(1) 2(3)]) (rule step [of r]; simp)
  then show ?case by (rule 2(1) [OF p'(2)]) (rule step; simp)
qed simp

text \<open>What the moves, and with them the lives, of a container keep when some kinds of calls are never made.\<close>

lemma life_record:
  assumes "life c p rs q" "p \<noteq> No_Record" "\<forall>r\<in>set rs. Record_Removed c \<notin> touches r"
  shows "q \<noteq> No_Record"
  by (rule life_invariant [where Q = "\<lambda>p. p \<noteq> No_Record", OF assms(1,2)]) (use assms(3) in \<open>auto elim: move_to_no_recordE\<close>)

lemma life_stopped:
  assumes "life c (Has_Task Stopped) rs q" "\<forall>r\<in>set rs. Record_Removed c \<notin> touches r" "\<forall>r\<in>set rs. Task_Removed c \<notin> touches r"
  shows "q = Has_Task Stopped"
  by (rule life_invariant [where Q = "\<lambda>p. p = Has_Task Stopped", OF assms(1)]) (use assms(2,3) in \<open>auto elim: move_stoppedE\<close>)

lemma life_no_task:
  assumes "life c No_Task rs q" "\<forall>r\<in>set rs. Record_Removed c \<notin> touches r" "\<forall>r\<in>set rs. Task_Made c \<notin> touches r"
  shows "q = No_Task"
  by (rule life_invariant [where Q = "\<lambda>p. p = No_Task", OF assms(1)]) (use assms(2,3) in \<open>auto elim: move_no_taskE\<close>)

definition untouched :: "string \<Rightarrow> request \<Rightarrow> bool" where
  "untouched c r \<longleftrightarrow> list_all (\<lambda>t. t c \<notin> touches r) [Task_Made, Task_Paused, Task_Resumed, Task_Removed, Record_Removed]"

lemma life_untouched:
  assumes "life c p rs q" "p \<noteq> No_Record" "\<forall>r\<in>set rs. untouched c r"
  shows "exits p q"
proof (rule life_invariant [where Q = "exits p", OF assms(1)])
  show "exits p p" by (simp add: exits_def)
  fix r x y assume "r \<in> set rs" "move c (touches r) x y" "exits p x"
  with assms(2,3) show "exits p y" by (auto simp: untouched_def exits_def elim: move.cases)
qed

section \<open>The daemon\<close>

text \<open>Calls about layers are of no concern here.\<close>

abbreviation any_layer :: "touch set" where "any_layer \<equiv> range Layer_Used \<union> range Layer_Lost"

definition lifecycle_contract :: "'d platform \<Rightarrow> string \<Rightarrow> (string \<Rightarrow> 'd \<Rightarrow> phase) \<Rightarrow> bool" where
  "lifecycle_contract P ns phase_of \<longleftrightarrow>
     (\<forall>c A p. timed_keep P ns (A \<union> any_layer) (\<lambda>d. rtranclp (move c A) p (phase_of c d)))"

lemma fresh_any_layer: "fresh_layers P \<subseteq> A \<union> any_layer"
  unfolding fresh_layers_def by blast

lemma dispatch_moves:
  assumes "lifecycle_contract P ns phase_of" "runtime_neutral P R" "dispatch P R ns r w = Some (q, w')"
  shows "rtranclp (move c (touches r)) (phase_of c (daemon w)) (phase_of c (daemon w'))"
proof -
  have "timed_keep P ns (touches r \<union> any_layer) (\<lambda>d. rtranclp (move c (touches r)) (phase_of c (daemon w)) (phase_of c d))"
    using assms(1) by (simp add: lifecycle_contract_def)
  from p_keepsD [OF dispatch_keeps [OF this assms(2) Un_upper1 fresh_any_layer] assms(3)] show ?thesis by (simp add: le_supI2)
qed

lemma session_life:
  assumes "lifecycle_contract P ns phase_of" "runtime_neutral P R"
  shows "session P R ns rs w = Some w' \<Longrightarrow> life c (phase_of c (daemon w)) rs (phase_of c (daemon w'))"
proof (induction rs arbitrary: w)
  case (Cons r rs)
  then obtain q v where v: "dispatch P R ns r w = Some (q, v)" "session P R ns rs v = Some w'"
    by (auto split: option.splits)
  with Cons.IH dispatch_moves [OF assms v(1), of c] show ?case by auto
qed simp

section \<open>The reference daemon\<close>

definition rd_phase :: "string \<Rightarrow> string \<Rightarrow> rd \<Rightarrow> phase" where
  "rd_phase ns c d =
     (if map_of (rd_containers d) (rd_key ns c) = None then No_Record
      else (case map_of (rd_tasks d) (rd_key ns c) of
              None \<Rightarrow> No_Task | Some t \<Rightarrow> Has_Task (task_status_from rd_platform (pm_status t))))"

lemma map_of_set_status:
  "map_of (rd_tasks (rd_set_status st ex k d)) j =
     map_option (\<lambda>t. if j = k then t\<lparr>pm_status := st, pm_exit_status := ex\<rparr> else t) (map_of (rd_tasks d) j)"
proof -
  have "map_of (map (\<lambda>(k', p). (k', if k' = k then f p else p)) xs) j = map_option (\<lambda>t. if j = k then f t else t) (map_of xs j)"
    for f :: "process_msg \<Rightarrow> process_msg" and xs
    by (induction xs) auto
  then show ?thesis by (simp add: rd_set_status_def)
qed

lemma rd_set_status_containers [simp]: "rd_containers (rd_set_status st ex k d) = rd_containers d"
  by (simp add: rd_set_status_def)

lemma rd_status:
  "task_status_from rd_platform 1 = Running" "task_status_from rd_platform 2 = Running"
  "task_status_from rd_platform 3 = Stopped" "task_status_from rd_platform 4 = Paused"
  by (simp_all add: task_status_from_def rd_calls)

lemma rd_phase_set_status:
  "rd_phase ns c (rd_set_status st ex (rd_key ns x) d) =
     (case rd_phase ns c d of Has_Task s \<Rightarrow> if x = c then Has_Task (task_status_from rd_platform st) else Has_Task s | p \<Rightarrow> p)"
  by (auto simp: rd_phase_def map_of_set_status option.map_ident split: option.split)

lemma rd_phase_task:
  "map_of (rd_tasks d) (rd_key ns c) = Some t
    \<Longrightarrow> rd_phase ns c d = No_Record \<or> rd_phase ns c d = Has_Task (task_status_from rd_platform (pm_status t))"
  by (simp add: rd_phase_def)

lemma rd_phase_same:
  "rd_containers d' = rd_containers d \<Longrightarrow> rd_tasks d' = rd_tasks d \<Longrightarrow> rtranclp (move c A) (rd_phase ns c d) (rd_phase ns c d')"
  by (simp add: rd_phase_def)

text \<open>The calls that change a task or a record, each with its kind of move.\<close>

lemma rd_moves:
  "rtranclp (move c A) (rd_phase ns c d) (rd_phase ns c (snd (tasks_kill rd_platform ns x e g a d)))"
  "Task_Made x \<in> A \<or> e \<noteq> [] \<Longrightarrow> rtranclp (move c A) (rd_phase ns c d) (rd_phase ns c (snd (tasks_start rd_platform ns x e d)))"
  "Task_Paused x \<in> A \<Longrightarrow> rtranclp (move c A) (rd_phase ns c d) (rd_phase ns c (snd (tasks_pause rd_platform ns x d)))"
  "Task_Resumed x \<in> A \<Longrightarrow> rtranclp (move c A) (rd_phase ns c d) (rd_phase ns c (snd (tasks_resume rd_platform ns x d)))"
  using rd_phase_task [of d ns c]
  by (auto simp: rd_calls rd_err_def rd_task_op_def rd_phase_set_status rd_status intro: moves split: option.split phase.split)

lemma rd_task_moves:
  "Task_Removed x \<in> A \<Longrightarrow> rtranclp (move c A) (rd_phase ns c d) (rd_phase ns c (snd (tasks_delete rd_platform ns x d)))"
  "Task_Made (ct_container_id m) \<in> A \<Longrightarrow> rtranclp (move c A) (rd_phase ns c d) (rd_phase ns c (snd (tasks_create rd_platform ns m d)))"
  by (auto simp: rd_calls rd_err_def rd_task_op_def rd_phase_def rd_status map_of_filter_keys intro: moves split: option.split)

lemma rd_record_moves:
  "Record_Removed x \<in> A \<Longrightarrow> rtranclp (move c A) (rd_phase ns c d) (rd_phase ns c (snd (containers_delete rd_platform ns x d)))"
  "rtranclp (move c A) (rd_phase ns c d) (rd_phase ns c (snd (containers_create rd_platform ns cm d)))"
  by (auto simp: rd_calls rd_err_def rd_phase_def map_of_filter_keys intro: moves split: option.split)

lemma rd_calls_move: "calls_keep rd_platform ns (A \<union> any_layer) (\<lambda>d. rtranclp (move c A) p (rd_phase ns c d))"
proof -
  have k: "rpc_keeps (\<lambda>d. rtranclp (move c A) p (rd_phase ns c d)) f"
    if "\<And>d. rtranclp (move c A) (rd_phase ns c d) (rd_phase ns c (snd (f d)))" for f :: "rd \<Rightarrow> 'x \<times> rd"
    using that unfolding rpc_keeps_def by (meson rtranclp_trans)
  show ?thesis
    unfolding calls_keep_def
    by (intro conjI allI impI; rule k;
        (rule rd_moves rd_task_moves rd_record_moves; auto?
         | rule rd_phase_same; simp add: rd_calls rd_err_def rd_task_op_def split: option.split))
qed

lemma rd_lifecycle_contract: "lifecycle_contract rd_platform ns (rd_phase ns)"
  unfolding lifecycle_contract_def timed_keep_def
  using rd_calls_move by (simp add: rd_calls rd_phase_def)

definition rd_runtime :: "rd runtime" where
  "rd_runtime = \<lparr>rt_shim = echo_shim, rt_within = no_timer, rt_connect = no_listener\<rparr>"

lemma rd_runtime_neutral: "runtime_neutral rd_platform rd_runtime"
  by (simp add: runtime_neutral_def rd_runtime_def no_timer_def no_listener_def keeps_def case_prod_beta)

definition rd_session :: "request list" where
  "rd_session = [Start (ContainerId ''c''), Pause (ContainerId ''c''), Stop (ContainerId ''c'') (from_secs 10),
     Exec_In (ContainerId ''c'') [''ls''], Snapshot_As (ContainerId ''c'') ''base'' \<lparr>so_restart_src = True, so_description = None\<rparr>,
     Clone_As (ContainerId ''c'') ''copy'' default_clone_opts, Reset_To (ContainerId ''c'') ''base'' \<lparr>re_restart = True\<rparr>,
     Wait_Ready (ContainerId ''c'') (from_secs 3) ProcessRunning, Delete (ContainerId ''c'') (from_secs 10),
     Create ''web'' ''img'' default_opts]"

text \<open>A daemon with two containers, the second of which no request of the session is about.\<close>

definition rd_two :: rd where
  "rd_two = (rd_with_task 2)\<lparr>rd_containers := (''default/d'', (snd (hd (rd_containers (rd_with_task 2))))\<lparr>cm_id := ''d''\<rparr>) # rd_containers (rd_with_task 2)\<rparr>"

lemma rd_two_phase: "rd_phase ''default'' ''d'' (daemon (rd_world rd_two)) = No_Task"
  by (simp add: rd_phase_def rd_two_def rd_with_task_def rd_world_def rd_key_def)

lemma session_ends:
  assumes "clock_sleeps P" "clock_monotone P ns" "runtime_neutral P R" "list_all own_pace rs"
  shows "\<exists>w'. session P R ns rs w = Some w' \<and> now P (daemon w) \<le> now P (daemon w')"
  using assms(4)
proof (induction rs arbitrary: w)
  case (Cons r rs)
  then obtain q v where v: "dispatch P R ns r w = Some (q, v)" "now P (daemon w) \<le> now P (daemon v)"
    using returnsE [OF dispatch_returns [OF assms(1-3)], of r w] by auto
  from Cons.IH [of v] Cons.prems obtain w' where "session P R ns rs v = Some w'" "now P (daemon v) \<le> now P (daemon w')"
    by auto
  with v show ?case by auto
qed simp

section \<open>Properties\<close>



text \<open>
  C1: Sessions follow the life cycle: what a session does to a container is a run of the abstract
  machine, in which each request makes only its own moves. A task appears only by a start (or the
  restart of a clone, snapshot or reset), becomes paused or runs again only by the requests for it,
  is removed only once it has stopped, and the record disappears only by a deletion.
\<close>

theorem session_follows_lifecycle:
  assumes "lifecycle_contract P ns phase_of" "runtime_neutral P R" "session P R ns rs w = Some w'"
  shows "life c (phase_of c (daemon w)) rs (phase_of c (daemon w'))"
  using session_life [OF assms] .

theorem session_follows_lifecycle_witness:
  "\<exists>w'. session rd_platform rd_runtime ''default'' rd_session (rd_world rd_two) = Some w'
     \<and> life ''c'' (rd_phase ''default'' ''c'' (rd_two)) rd_session (rd_phase ''default'' ''c'' (daemon w'))"
proof -
  have p: "list_all own_pace rd_session" by (simp add: rd_session_def)
  obtain w' where w': "session rd_platform rd_runtime ''default'' rd_session (rd_world rd_two) = Some w'"
    using session_ends [OF rd_clock_sleeps rd_clock_monotone rd_runtime_neutral p] by blast
  from session_follows_lifecycle [OF rd_lifecycle_contract rd_runtime_neutral w', of "''c''"] w'
  show ?thesis by (simp add: rd_world_def)
qed

text \<open>
  C2: Containers are isolated from each other: after any session that never deletes an existing
  container, the container still exists; if the session does not remove its task either, a stopped
  task is still stopped, so nothing but a new task runs again; if it makes no task for it, a
  container without a task has none; and if no request is about the container, its task is as it was
  or has exited.
\<close>

theorem sessions_isolate_containers:
  assumes "lifecycle_contract P ns phase_of" "runtime_neutral P R" "session P R ns rs w = Some w'"
    and "phase_of c (daemon w) \<noteq> No_Record" "\<forall>r\<in>set rs. Record_Removed c \<notin> touches r"
  shows "phase_of c (daemon w') \<noteq> No_Record
    \<and> ((\<forall>r\<in>set rs. Task_Removed c \<notin> touches r) \<longrightarrow> phase_of c (daemon w) = Has_Task Stopped \<longrightarrow> phase_of c (daemon w') = Has_Task Stopped)
    \<and> ((\<forall>r\<in>set rs. Task_Made c \<notin> touches r) \<longrightarrow> phase_of c (daemon w) = No_Task \<longrightarrow> phase_of c (daemon w') = No_Task)
    \<and> ((\<forall>r\<in>set rs. untouched c r) \<longrightarrow> exits (phase_of c (daemon w)) (phase_of c (daemon w')))"
proof -
  note l = session_life [OF assms(1-3), of c]
  from life_record [OF l assms(4,5)] life_untouched [OF l assms(4)] l assms(5) show ?thesis
    by (auto dest: life_stopped life_no_task)
qed

theorem sessions_isolate_containers_witness:
  "\<exists>w'. session rd_platform rd_runtime ''default'' rd_session (rd_world rd_two) = Some w'
     \<and> rd_phase ''default'' ''d'' (daemon w') = No_Task"
proof -
  have p: "list_all own_pace rd_session" by (simp add: rd_session_def)
  obtain w' where w': "session rd_platform rd_runtime ''default'' rd_session (rd_world rd_two) = Some w'"
    using session_ends [OF rd_clock_sleeps rd_clock_monotone rd_runtime_neutral p] by blast
  have t: "\<forall>r\<in>set rd_session. Record_Removed ''d'' \<notin> touches r" "\<forall>r\<in>set rd_session. untouched ''d'' r"
    by (simp_all add: rd_session_def untouched_def default_opts_def)
  from sessions_isolate_containers [OF rd_lifecycle_contract rd_runtime_neutral w' _ t(1)] t(2) rd_two_phase w'
  show ?thesis by (auto simp: exits_def)
qed

end
