(* ===== verification/Layers.thy ===== *)
theory Layers
  imports Lifecycle
begin

text \<open>
  The writable layers of containers under a session. A container's data is the layer that its record
  names; removing that layer, or committing it under another name, is how the data of a container
  is lost or moved. The requests that do so are those that delete, clone, snapshot or reset the
  container, and those that name the layer themselves. No other request touches it.

  What this relies on in containerd is \<open>layer_contract\<close>: a layer stays as it is unless it is itself
  removed or committed, and a container is on a layer only when its record was made on it.
\<close>

section \<open>The daemon\<close>

definition record_key :: "'d platform \<Rightarrow> string \<Rightarrow> string \<Rightarrow> 'd \<Rightarrow> string option" where
  "record_key P ns c d = (case fst (containers_get P ns c d) of Inr (Some m) \<Rightarrow> Some (cm_snapshot_key m) | _ \<Rightarrow> None)"

definition layer_contract :: "'d platform \<Rightarrow> string \<Rightarrow> (string \<Rightarrow> 'd \<Rightarrow> 'l option) \<Rightarrow> bool" where
  "layer_contract P ns layer \<longleftrightarrow>
     (\<forall>k l. timed_keep P ns (- {Layer_Lost k}) (\<lambda>d. layer k d = Some l))
   \<and> (\<forall>c k. timed_keep P ns (- {Layer_Used k}) (\<lambda>d. record_key P ns c d \<noteq> Some k))"

lemma timed_keep_conj:
  "timed_keep P ns A I \<Longrightarrow> timed_keep P ns B J \<Longrightarrow> timed_keep P ns (A \<inter> B) (\<lambda>d. I d \<and> J d)"
  by (simp add: timed_keep_def calls_keep_conj)

lemma timed_keep_all:
  assumes "\<And>c. timed_keep P ns A (I c)"
  shows "timed_keep P ns A (\<lambda>d. \<forall>c\<in>C. I c d)"
  using assms by (simp add: timed_keep_def calls_keep_def rpc_keeps_def)

text \<open>A layer together with the containers that are not on it.\<close>

definition layer_apart :: "'d platform \<Rightarrow> string \<Rightarrow> (string \<Rightarrow> 'd \<Rightarrow> 'l option) \<Rightarrow> string set \<Rightarrow> string \<Rightarrow> 'l \<Rightarrow> 'd \<Rightarrow> bool" where
  "layer_apart P ns layer C k l d \<longleftrightarrow> layer k d = Some l \<and> (\<forall>c\<in>C. record_key P ns c d \<noteq> Some k)"

lemma layer_apart_kept:
  assumes "layer_contract P ns layer"
  shows "timed_keep P ns (- {Layer_Lost k, Layer_Used k}) (layer_apart P ns layer C k l)"
proof -
  have "timed_keep P ns (- {Layer_Lost k} \<inter> - {Layer_Used k}) (\<lambda>d. layer k d = Some l \<and> (\<forall>c\<in>C. record_key P ns c d \<noteq> Some k))"
    using assms by (intro timed_keep_conj timed_keep_all) (simp_all add: layer_contract_def)
  moreover have "- {Layer_Lost k} \<inter> - {Layer_Used k} = - {Layer_Lost k, Layer_Used k}" by blast
  ultimately show ?thesis by (simp add: layer_apart_def [abs_def])
qed

lemma layer_apart_others:
  "c \<in> C \<Longrightarrow> layers_in P ns (- {Layer_Lost k, Layer_Used k}) (layer_apart P ns layer C k l) c"
  by (force simp: layers_in_def layer_apart_def record_key_def)

section \<open>Requests\<close>

text \<open>A request that neither names the layer nor opens the layer of a container on it.\<close>

definition spares :: "string set \<Rightarrow> string \<Rightarrow> request \<Rightarrow> bool" where
  "spares C k r \<longleftrightarrow> Layer_Lost k \<notin> touches r \<and> Layer_Used k \<notin> touches r \<and> opens r \<subseteq> C"

lemma dispatch_spares:
  assumes "layer_contract P ns layer" "runtime_neutral P R" "dispatch P R ns r w = Some (q, w')"
    and "spares C k r" "\<forall>d. snapshot_key_for (fst (uuid_v4 P d)) \<noteq> k" "layer_apart P ns layer C k l (daemon w)"
  shows "layer_apart P ns layer C k l (daemon w')"
proof -
  have "touches r \<subseteq> - {Layer_Lost k, Layer_Used k}" "\<forall>c\<in>opens r. c \<in> C" using assms(4) by (auto simp: spares_def)
  moreover have "fresh_layers P \<subseteq> - {Layer_Lost k, Layer_Used k}" using assms(5) by (auto simp: fresh_layers_def)
  ultimately have "p_keeps (layer_apart P ns layer C k l) (dispatch P R ns r)"
    by (intro dispatch_keeps [OF layer_apart_kept [OF assms(1)] assms(2)]) (auto intro: layer_apart_others)
  from p_keepsD [OF this assms(3,6)] show ?thesis .
qed

lemma session_spares:
  assumes "layer_contract P ns layer" "runtime_neutral P R" "\<forall>d. snapshot_key_for (fst (uuid_v4 P d)) \<noteq> k"
  shows "session P R ns rs w = Some w' \<Longrightarrow> list_all (spares C k) rs \<Longrightarrow> layer_apart P ns layer C k l (daemon w)
    \<Longrightarrow> layer_apart P ns layer C k l (daemon w')"
proof (induction rs arbitrary: w)
  case (Cons r rs)
  then obtain q v where v: "dispatch P R ns r w = Some (q, v)" "session P R ns rs v = Some w'" "spares C k r" "list_all (spares C k) rs"
    by (auto split: option.splits)
  from Cons.IH [OF v(2,4)] dispatch_spares [OF assms(1,2) v(1,3) assms(3) Cons.prems(3)] show ?case by blast
qed simp

section \<open>The reference daemon\<close>

definition rd_layer :: "string \<Rightarrow> string \<Rightarrow> rd \<Rightarrow> snapshot_msg option" where
  "rd_layer ns k d = map_of (rd_snapshots d) (rd_key ns k)"

lemma rd_record_key: "record_key rd_platform ns c d = map_option cm_snapshot_key (map_of (rd_containers d) (rd_key ns c))"
  by (simp add: record_key_def rd_calls rd_err_def split: option.split)

lemma rd_calls_layer: "calls_keep rd_platform ns (- {Layer_Lost k}) (\<lambda>d. rd_layer ns k d = Some l)"
  unfolding calls_keep_def rpc_keeps_def
  by (intro conjI allI impI;
      auto simp: rd_layer_def rd_calls rd_err_def rd_task_op_def rd_set_status_def map_of_filter_keys split: option.split if_splits)

lemma rd_calls_record_key: "calls_keep rd_platform ns (- {Layer_Used k}) (\<lambda>d. record_key rd_platform ns c d \<noteq> Some k)"
  unfolding calls_keep_def rpc_keeps_def rd_record_key
  by (intro conjI allI impI;
      auto simp: rd_calls rd_err_def rd_task_op_def rd_set_status_def map_of_filter_keys split: option.split if_splits)

lemma rd_layer_contract: "layer_contract rd_platform ns (rd_layer ns)"
  unfolding layer_contract_def timed_keep_def
  using rd_calls_layer rd_calls_record_key by (simp add: rd_layer_def rd_record_key) (simp add: rd_calls)

text \<open>The two containers of \<open>rd_two\<close>, each on a layer of its own.\<close>

definition rd_layered :: rd where
  "rd_layered = rd_two\<lparr>rd_containers := map (\<lambda>(k, m). (k, m\<lparr>cm_snapshot_key := snapshot_key_for (cm_id m)\<rparr>)) (rd_containers rd_two),
     rd_snapshots := map (\<lambda>k. (rd_key ''default'' k, \<lparr>sm_name = k, sm_parent = ''img'', sm_labels = [], sm_created_at = None\<rparr>))
       [''c-snapshot'', ''d-snapshot'']\<rparr>"

lemma rd_ids_apart: "snapshot_key_for (fst (uuid_v4 rd_platform d)) \<noteq> ''d-snapshot''"
  by (simp add: rd_calls snapshot_key_for_def)

section \<open>Properties\<close>

text \<open>
  C3: No session loses the data of a container behind its back. A layer is afterwards the one it was,
  provided that no request of the session names it (deletes the container of that name, takes or
  deletes a snapshot of that name, makes a container on it), that no container which the session
  clones, snapshots or resets is on it, and that new identifiers are not that of its container; this
  covers every error path and every rollback of the requests.
\<close>

theorem sessions_keep_layers:
  assumes "layer_contract P ns layer" "runtime_neutral P R" "session P R ns rs w = Some w'"
    and "layer k (daemon w) = Some l" "\<forall>d. snapshot_key_for (fst (uuid_v4 P d)) \<noteq> k"
    and "\<forall>r\<in>set rs. Layer_Lost k \<notin> touches r \<and> Layer_Used k \<notin> touches r"
    and "\<forall>r\<in>set rs. \<forall>c\<in>opens r. record_key P ns c (daemon w) \<noteq> Some k"
  shows "layer k (daemon w') = Some l"
proof -
  let ?C = "\<Union>r\<in>set rs. opens r"
  have "list_all (spares ?C k) rs" using assms(6) by (auto simp: list_all_iff spares_def)
  moreover have "layer_apart P ns layer ?C k l (daemon w)" using assms(4,7) by (auto simp: layer_apart_def)
  ultimately have "layer_apart P ns layer ?C k l (daemon w')" by (rule session_spares [OF assms(1,2,5,3)])
  then show ?thesis by (simp add: layer_apart_def)
qed

theorem sessions_keep_layers_witness:
  "\<exists>w' l. session rd_platform rd_runtime ''default'' rd_session (rd_world rd_layered) = Some w'
     \<and> rd_layer ''default'' ''d-snapshot'' rd_layered = Some l \<and> rd_layer ''default'' ''d-snapshot'' (daemon w') = Some l"
proof -
  have p: "list_all own_pace rd_session" by (simp add: rd_session_def)
  obtain w' where w': "session rd_platform rd_runtime ''default'' rd_session (rd_world rd_layered) = Some w'"
    using session_ends [OF rd_clock_sleeps rd_clock_monotone rd_runtime_neutral p] by blast
  define l where "l = \<lparr>sm_name = ''d-snapshot'', sm_parent = ''img'', sm_labels = [], sm_created_at = None\<rparr>"
  have l: "rd_layer ''default'' ''d-snapshot'' (daemon (rd_world rd_layered)) = Some l"
    by (simp add: rd_layer_def rd_layered_def rd_world_def rd_key_def l_def)
  have t: "\<forall>r\<in>set rd_session. Layer_Lost ''d-snapshot'' \<notin> touches r \<and> Layer_Used ''d-snapshot'' \<notin> touches r"
    by (simp add: rd_session_def snapshot_key_for_def default_opts_def)
  have o: "\<forall>r\<in>set rd_session. \<forall>c\<in>opens r. record_key rd_platform ''default'' c (daemon (rd_world rd_layered)) \<noteq> Some ''d-snapshot''"
    by (simp add: rd_session_def rd_record_key rd_layered_def rd_two_def rd_with_task_def rd_world_def rd_key_def snapshot_key_for_def)
  have "rd_layer ''default'' ''d-snapshot'' (daemon w') = Some l"
    using sessions_keep_layers [OF rd_layer_contract rd_runtime_neutral w' l _ t o] rd_ids_apart by blast
  with w' l show ?thesis by (auto simp: rd_world_def)
qed

end
