(* ===== verification/Concurrent_Create.thy ===== *)
theory Concurrent_Create
  imports Container
begin

text \<open>
  Several creations at once in one process. \<open>create_container_with_id\<close> of src/src/container.rs is cut
  into stages, around the points where it takes the lock, scans the labels, picks an address and
  makes the record; between them the creations of other tasks, and everything else that happens to
  the daemon, may run. The lock \<^verbatim>\<open>ALLOC_LOCK\<close> of src/src/bridge.rs is taken before the
  labels are scanned and released when the creation returns, after the record that carries the
  address has been made or has failed to be made.

  A creation that runs alone does what \<open>create_container_with_id\<close> does (\<open>creator_alone\<close>). What is
  shown of any interleaving is that no two containers in bridge mode share an address.
\<close>

section \<open>Model\<close>

record job =
  jb_id :: container_id
  jb_name :: string
  jb_image :: string
  jb_opts :: create_opts

datatype creator =
  Looking
| Preparing image_metadata
| Waiting image_metadata string bool
| Scanning image_metadata string bool
| Picking image_metadata string bool "u8 list"
| Binding image_metadata string bool string
| Committing image_metadata string bool "(string \<times> (u16 \<times> u16) list) option"
| Returned "container_id result"

text \<open>A stage, its error returned at once.\<close>

definition stage :: "('d, 'a) op \<Rightarrow> ('a \<Rightarrow> creator) \<Rightarrow> 'd world \<Rightarrow> creator \<times> 'd world" where
  "stage m k w = (case m w of (Inl e, w') \<Rightarrow> (Returned (Inl e), w') | (Inr x, w') \<Rightarrow> (k x, w'))"

fun advance :: "'d platform \<Rightarrow> string \<Rightarrow> job \<Rightarrow> creator \<Rightarrow> 'd world \<Rightarrow> creator \<times> 'd world" where
  "advance P ns j Looking w =
     stage (bind (from_result (validate_identifier (jb_name j))) (\<lambda>_. create_lookup P ns (jb_name j) (jb_image j))) Preparing w"
| "advance P ns j (Preparing md) w =
     stage (prepare_rootfs P ns (as_str (jb_id j)) (jb_name j) (md_chain_id md) (jb_opts j))
       (\<lambda>(key, prepared). if co_network (jb_opts j) = Bridge then Waiting md key prepared else Committing md key prepared None) w"
| "advance P ns j (Waiting md key prepared) w = (Scanning md key prepared, w)"
| "advance P ns j (Scanning md key prepared) w = stage (used_octets P ns) (Picking md key prepared) w"
| "advance P ns j (Picking md key prepared used) w =
     stage (pick_free_octet P used) (\<lambda>oc. Binding md key prepared (bridge_ip oc)) w"
| "advance P ns j (Binding md key prepared ip) w =
     stage (pick_ports P (if co_port_bindings (jb_opts j) = [] then [27017] else map snd (co_port_bindings (jb_opts j))))
       (\<lambda>ports. Committing md key prepared (Some (ip, ports))) w"
| "advance P ns j (Committing md key prepared bc) w =
     (case commit_record P ns (jb_name j) (jb_id j)
        (container_record P ns (as_str (jb_id j)) (jb_name j) (jb_image j) key (md_config md) (jb_opts j) bc) prepared w of
        (r, w') \<Rightarrow> (Returned r, w'))"
| "advance P ns j (Returned r) w = (Returned r, w)"

text \<open>A creation between the acquisition of the lock and its return.\<close>

fun holds :: "creator \<Rightarrow> bool" where
  "holds (Scanning _ _ _) = True"
| "holds (Picking _ _ _ _) = True"
| "holds (Binding _ _ _ _) = True"
| "holds (Committing _ _ _ (Some _)) = True"
| "holds _ = False"

fun awaits_lock :: "creator \<Rightarrow> bool" where
  "awaits_lock (Waiting _ _ _) = True"
| "awaits_lock _ = False"

record 'd pool =
  pl_world :: "'d world"
  pl_lock :: "nat option"
  pl_at :: "nat \<Rightarrow> creator"

text \<open>The containers in bridge mode, and the octet that a container carries in its label.\<close>

definition addressed :: "container_msg set \<Rightarrow> container_msg set" where
  "addressed R = {c \<in> R. map_of (cm_labels c) NETWORK_MODE_LABEL = Some (label_value Bridge)}"

definition octet_of :: "container_msg \<Rightarrow> u8 option" where
  "octet_of c = Option.bind (map_of (cm_labels c) BRIDGE_IP_LABEL) parse_octet"

text \<open>
  One creation takes a stage, or the rest of the world does something to the daemon that adds no
  container in bridge mode.
\<close>

inductive pool_step :: "'d platform \<Rightarrow> string \<Rightarrow> (nat \<Rightarrow> job) \<Rightarrow> ('d \<Rightarrow> container_msg set) \<Rightarrow> 'd pool \<Rightarrow> 'd pool \<Rightarrow> bool"
  for P ns jobs recs where
  creation: "awaits_lock (pl_at s i) \<longrightarrow> pl_lock s = None \<Longrightarrow> advance P ns (jobs i) (pl_at s i) (pl_world s) = (st, w) \<Longrightarrow>
    pool_step P ns jobs recs s
      \<lparr>pl_world = w, pl_lock = (if holds st then Some i else if holds (pl_at s i) then None else pl_lock s), pl_at = (pl_at s)(i := st)\<rparr>"
| elsewhere: "addressed (recs d) \<subseteq> addressed (recs (daemon (pl_world s))) \<Longrightarrow>
    pool_step P ns jobs recs s (s\<lparr>pl_world := (pl_world s)\<lparr>daemon := d\<rparr>\<rparr>)"

inductive_cases pool_stepE: "pool_step P ns jobs recs s t"

definition distinct_addresses :: "container_msg set \<Rightarrow> bool" where
  "distinct_addresses R \<longleftrightarrow>
     (\<forall>c\<in>addressed R. \<forall>c'\<in>addressed R. c \<noteq> c' \<longrightarrow> octet_of c \<noteq> None \<longrightarrow> octet_of c \<noteq> octet_of c')"

inductive pool_reach :: "'d platform \<Rightarrow> string \<Rightarrow> (nat \<Rightarrow> job) \<Rightarrow> ('d \<Rightarrow> container_msg set) \<Rightarrow> 'd pool \<Rightarrow> bool"
  for P ns jobs recs where
  start: "distinct_addresses (recs (daemon w)) \<Longrightarrow> pool_reach P ns jobs recs \<lparr>pl_world = w, pl_lock = None, pl_at = (\<lambda>_. Looking)\<rparr>"
| step: "pool_reach P ns jobs recs s \<Longrightarrow> pool_step P ns jobs recs s t \<Longrightarrow> pool_reach P ns jobs recs t"

section \<open>A creation on its own\<close>

text \<open>What is left to do at each stage, as one operation.\<close>

abbreviation commit_job ::
  "'d platform \<Rightarrow> string \<Rightarrow> job \<Rightarrow> image_metadata \<Rightarrow> string \<Rightarrow> bool \<Rightarrow> (string \<times> (u16 \<times> u16) list) option \<Rightarrow> ('d, container_id) op" where
  "commit_job P ns j md key prepared bc \<equiv> commit_record P ns (jb_name j) (jb_id j)
     (container_record P ns (as_str (jb_id j)) (jb_name j) (jb_image j) key (md_config md) (jb_opts j) bc) prepared"

abbreviation job_ports :: "job \<Rightarrow> u16 list" where
  "job_ports j \<equiv> (if co_port_bindings (jb_opts j) = [] then [27017] else map snd (co_port_bindings (jb_opts j)))"

fun rest :: "'d platform \<Rightarrow> string \<Rightarrow> job \<Rightarrow> creator \<Rightarrow> ('d, container_id) op" where
  "rest P ns j Looking = create_container_with_id P ns (jb_id j) (jb_name j) (jb_image j) (jb_opts j)"
| "rest P ns j (Preparing md) =
     bind (prepare_rootfs P ns (as_str (jb_id j)) (jb_name j) (md_chain_id md) (jb_opts j)) (\<lambda>(key, prepared).
       bind (bridge_setup P ns (jb_opts j)) (commit_job P ns j md key prepared))"
| "rest P ns j (Waiting md key prepared) =
     bind (alloc_bridge_ip P ns) (\<lambda>ip. bind (pick_ports P (job_ports j)) (\<lambda>ports. commit_job P ns j md key prepared (Some (ip, ports))))"
| "rest P ns j (Scanning md key prepared) =
     bind (alloc_bridge_ip P ns) (\<lambda>ip. bind (pick_ports P (job_ports j)) (\<lambda>ports. commit_job P ns j md key prepared (Some (ip, ports))))"
| "rest P ns j (Picking md key prepared used) =
     bind (pick_free_octet P used) (\<lambda>oc. bind (pick_ports P (job_ports j)) (\<lambda>ports. commit_job P ns j md key prepared (Some (bridge_ip oc, ports))))"
| "rest P ns j (Binding md key prepared ip) =
     bind (pick_ports P (job_ports j)) (\<lambda>ports. commit_job P ns j md key prepared (Some (ip, ports)))"
| "rest P ns j (Committing md key prepared bc) = commit_job P ns j md key prepared bc"
| "rest P ns j (Returned r) = from_result r"

lemma from_result_Inr: "from_result (Inr x) = ret x"
  by (simp add: from_result_def ret_def fun_eq_iff)

lemma stage_rest:
  assumes "stage m k w = (st, w')" "rest P ns j s = bind m (\<lambda>x. rest P ns j (k x))"
  shows "rest P ns j st w' = rest P ns j s w"
  using assms(1) by (auto simp: assms(2) stage_def bind_def from_result_def split: prod.splits sum.splits)

lemma bridge_rest:
  "bind (bridge_setup P ns (jb_opts j)) (commit_job P ns j md key prepared) =
     rest P ns j (if co_network (jb_opts j) = Bridge then Waiting md key prepared else Committing md key prepared None)"
  by (simp add: bridge_setup_def bind_assoc bind_ret)

text \<open>A stage takes its part of the work and leaves the rest.\<close>

lemma advance_rest:
  assumes "advance P ns j s w = (st, w')"
  shows "rest P ns j st w' = rest P ns j s w"
proof (cases s)
  case Looking
  have "rest P ns j Looking = bind (bind (from_result (validate_identifier (jb_name j)))
      (\<lambda>_. create_lookup P ns (jb_name j) (jb_image j))) (\<lambda>md. rest P ns j (Preparing md))"
  proof (cases "validate_identifier (jb_name j)")
    case (Inl e)
    then show ?thesis by (simp add: create_container_with_id_def bind_def from_result_def fun_eq_iff)
  next
    case (Inr u)
    then have v: "validate_identifier (jb_name j) = Inr ()" by simp
    show ?thesis
      unfolding v rest.simps from_result_Inr bind_ret by (intro ext) (simp only: create_stages [OF v])
  qed
  from stage_rest [OF assms [unfolded Looking advance.simps] this] Looking show ?thesis by simp
next
  case (Preparing md)
  have "rest P ns j (Preparing md) = bind (prepare_rootfs P ns (as_str (jb_id j)) (jb_name j) (md_chain_id md) (jb_opts j))
      (\<lambda>x. rest P ns j ((\<lambda>(key, prepared). if co_network (jb_opts j) = Bridge then Waiting md key prepared else Committing md key prepared None) x))"
    by (simp only: rest.simps(2) bridge_rest) (rule arg_cong [where f = "bind _"], simp add: fun_eq_iff)
  from stage_rest [OF assms [unfolded Preparing advance.simps] this] Preparing show ?thesis by simp
next
  case (Waiting md key prepared)
  with assms show ?thesis by auto
next
  case (Scanning md key prepared)
  have "rest P ns j (Scanning md key prepared) = bind (used_octets P ns) (\<lambda>used. rest P ns j (Picking md key prepared used))"
    by (simp add: alloc_bridge_ip_def bind_assoc bind_ret)
  from stage_rest [OF assms [unfolded Scanning advance.simps] this] Scanning show ?thesis by simp
next
  case (Picking md key prepared used)
  show ?thesis unfolding Picking by (rule stage_rest [OF assms [unfolded Picking advance.simps]]) (simp only: rest.simps)
next
  case (Binding md key prepared ip)
  show ?thesis unfolding Binding by (rule stage_rest [OF assms [unfolded Binding advance.simps]]) (simp only: rest.simps)
next
  case (Committing md key prepared bc)
  with assms show ?thesis by (auto simp: from_result_def split: prod.splits)
next
  case (Returned r)
  with assms show ?thesis by simp
qed

fun rank :: "creator \<Rightarrow> nat" where
  "rank Looking = 7" | "rank (Preparing _) = 6" | "rank (Waiting _ _ _) = 5" | "rank (Scanning _ _ _) = 4"
| "rank (Picking _ _ _ _) = 3" | "rank (Binding _ _ _ _) = 2" | "rank (Committing _ _ _ _) = 1" | "rank (Returned _) = 0"

lemma stage_rank: "stage m k w = (st, w') \<Longrightarrow> (\<And>x. rank (k x) < n) \<Longrightarrow> 0 < n \<Longrightarrow> rank st < n"
  by (auto simp: stage_def split: prod.splits sum.splits)

lemma advance_rank: "advance P ns j s w = (st, w') \<Longrightarrow> rank st \<le> rank s - 1"
  by (cases s) (auto split: prod.splits dest!: stage_rank [where n = "rank s"])

lemma creator_alone:
  "rank s \<le> n \<Longrightarrow> ((\<lambda>(st, w). advance P ns j st w) ^^ n) (s, w) = (case rest P ns j s w of (r, w') \<Rightarrow> (Returned r, w'))"
proof (induction n arbitrary: s w)
  case 0
  then obtain r where "s = Returned r" by (cases s) auto
  then show ?case by (simp add: from_result_def)
next
  case (Suc n)
  obtain st w' where a: "advance P ns j s w = (st, w')" by fastforce
  then have "rank st \<le> n" using advance_rank [OF a] Suc.prems by simp
  from Suc.IH [OF this, of w'] advance_rest [OF a] a show ?case by (simp add: funpow_Suc_right del: funpow.simps)
qed

section \<open>Any interleaving\<close>

text \<open>
  What the creations rely on of the daemon's records: a listing shows all of them, making a record
  adds at most that record, and the other calls of a creation add none.
\<close>

definition record_contract :: "'d platform \<Rightarrow> string \<Rightarrow> ('d \<Rightarrow> container_msg set) \<Rightarrow> bool" where
  "record_contract P ns recs \<longleftrightarrow>
     (\<forall>d cs d'. containers_list P ns [] d = (Inr cs, d') \<longrightarrow> recs d \<subseteq> set cs)
   \<and> (\<forall>m d. recs (snd (containers_create P ns m d)) \<subseteq> insert m (recs d))
   \<and> (\<forall>R. (\<forall>fl. rpc_keeps (\<lambda>d. recs d \<subseteq> R) (containers_list P ns fl)) \<and> (\<forall>i. rpc_keeps (\<lambda>d. recs d \<subseteq> R) (images_get P ns i))
        \<and> (\<forall>g. rpc_keeps (\<lambda>d. recs d \<subseteq> R) (content_read P ns g)) \<and> (\<forall>xs. rpc_keeps (\<lambda>d. recs d \<subseteq> R) (rng_choose P xs))
        \<and> (\<forall>s k par ls. rpc_keeps (\<lambda>d. recs d \<subseteq> R) (snapshots_prepare P ns s k par ls))
        \<and> (\<forall>s k. rpc_keeps (\<lambda>d. recs d \<subseteq> R) (snapshots_remove P ns s k)) \<and> rpc_keeps (\<lambda>d. recs d \<subseteq> R) (ephemeral_port P))"

lemma record_contractD:
  assumes "record_contract P ns recs"
  shows "containers_list P ns [] d = (Inr cs, d') \<Longrightarrow> recs d \<subseteq> set cs"
    and "recs (snd (containers_create P ns m d)) \<subseteq> insert m (recs d)"
    and "rpc_keeps (\<lambda>d. recs d \<subseteq> R) (containers_list P ns fl)" "rpc_keeps (\<lambda>d. recs d \<subseteq> R) (images_get P ns i)"
    and "rpc_keeps (\<lambda>d. recs d \<subseteq> R) (content_read P ns g)" "rpc_keeps (\<lambda>d. recs d \<subseteq> R) (rng_choose P xs)"
    and "rpc_keeps (\<lambda>d. recs d \<subseteq> R) (snapshots_prepare P ns s k par ls)" "rpc_keeps (\<lambda>d. recs d \<subseteq> R) (snapshots_remove P ns s k)"
    and "rpc_keeps (\<lambda>d. recs d \<subseteq> R) (ephemeral_port P)"
  using assms by (simp_all add: record_contract_def)

lemma stage_shrinks:
  assumes "\<And>R. keeps (\<lambda>d. recs d \<subseteq> R) m" "stage m k w = (st, w')"
  shows "recs (daemon w') \<subseteq> recs (daemon w)"
proof -
  obtain q v where q: "m w = (q, v)" by fastforce
  then have "v = w'" using assms(2) by (auto simp: stage_def split: sum.splits)
  with keepsD [OF assms(1) q, of "recs (daemon w)"] show ?thesis by simp
qed

text \<open>Every stage but the last adds no record.\<close>

lemma advance_shrinks:
  assumes "record_contract P ns recs" "advance P ns j s w = (st, w')" "\<And>md key prepared bc. s \<noteq> Committing md key prepared bc"
  shows "recs (daemon w') \<subseteq> recs (daemon w)"
proof -
  note k = record_contractD(3-) [OF assms(1)]
  have port: "keeps (\<lambda>d. recs d \<subseteq> R) (pick_free_port P)" for R
    unfolding pick_free_port_def by (rule keeps_intros k)+ (auto intro!: keeps_intros split: sum.split ephemeral_error.split)
  have ports: "keeps (\<lambda>d. recs d \<subseteq> R) (pick_ports P cps)" for R cps
    by (induction cps) (simp_all only: pick_ports.simps, (rule keeps_intros port | assumption)+)
  have pick: "keeps (\<lambda>d. recs d \<subseteq> R) (pick_free_octet P used)" for R used
    unfolding pick_free_octet_def by (rule keeps_intros k)+ (auto intro!: keeps_intros split: option.split)
  have used: "keeps (\<lambda>d. recs d \<subseteq> R) (used_octets P ns)" for R
    unfolding used_octets_def by (intro keeps_intros k)
  have look: "keeps (\<lambda>d. recs d \<subseteq> R) (bind (from_result (validate_identifier n)) (\<lambda>_. create_lookup P ns n img))" for R n img
    unfolding create_lookup_def by (intro keeps_intros k)
  have prep: "keeps (\<lambda>d. recs d \<subseteq> R) (prepare_rootfs P ns c n chain opts)" for R c n chain opts
    unfolding prepare_rootfs_def Let_def by (auto intro!: keeps_intros k split: option.split)
  show ?thesis
    using assms(2,3)
    by (cases s) (auto dest: stage_shrinks [OF look] stage_shrinks [OF prep] stage_shrinks [OF used] stage_shrinks [OF pick] stage_shrinks [OF ports])
qed

text \<open>The address that a creation has taken and not given up.\<close>

fun claim :: "creator \<Rightarrow> string option" where
  "claim (Binding _ _ _ ip) = Some ip"
| "claim (Committing _ _ _ bc) = map_option fst bc"
| "claim _ = None"

text \<open>What holds of one creation, given the containers in bridge mode.\<close>

definition creator_ok :: "container_msg set \<Rightarrow> job \<Rightarrow> creator \<Rightarrow> bool" where
  "creator_ok B j st \<longleftrightarrow>
     (\<forall>md key prepared used. st = Picking md key prepared used \<longrightarrow> (\<forall>c\<in>B. \<forall>oc. octet_of c = Some oc \<longrightarrow> oc \<in> set used))
   \<and> (\<forall>ip. claim st = Some ip \<longrightarrow> (\<forall>c\<in>B. octet_of c \<noteq> parse_octet ip) \<and> parse_octet ip \<noteq> None)
   \<and> (\<forall>md key prepared. st = Committing md key prepared None \<longrightarrow> co_network (jb_opts j) \<noteq> Bridge)"

definition pool_inv :: "(nat \<Rightarrow> job) \<Rightarrow> ('d \<Rightarrow> container_msg set) \<Rightarrow> 'd pool \<Rightarrow> bool" where
  "pool_inv jobs recs s \<longleftrightarrow>
     (\<forall>i. holds (pl_at s i) \<longrightarrow> pl_lock s = Some i)
   \<and> (\<forall>i. creator_ok (addressed (recs (daemon (pl_world s)))) (jobs i) (pl_at s i))
   \<and> distinct_addresses (recs (daemon (pl_world s)))"

lemma creator_ok_fewer: "creator_ok B j st \<Longrightarrow> B' \<subseteq> B \<Longrightarrow> creator_ok B' j st"
  unfolding creator_ok_def by blast

lemma distinct_addresses_fewer: "distinct_addresses R \<Longrightarrow> addressed R' \<subseteq> addressed R \<Longrightarrow> distinct_addresses R'"
  unfolding distinct_addresses_def by blast

lemma distinct_addresses_one_more:
  "distinct_addresses R \<Longrightarrow> \<forall>c\<in>addressed R. octet_of c \<noteq> octet_of m \<Longrightarrow> addressed R' \<subseteq> insert m (addressed R) \<Longrightarrow> distinct_addresses R'"
  unfolding distinct_addresses_def by (metis insertE subsetD)

lemma addressed_mono: "R' \<subseteq> R \<Longrightarrow> addressed R' \<subseteq> addressed R"
  unfolding addressed_def by blast

lemma stage_cases: "stage m k w = (st, w') \<Longrightarrow> (\<exists>e. m w = (Inl e, w') \<and> st = Returned (Inl e)) \<or> (\<exists>x. m w = (Inr x, w') \<and> st = k x)"
  by (auto simp: stage_def split: prod.splits sum.splits)

lemma creator_ok_simple: "claim st = None \<Longrightarrow> (\<And>md key prepared used. st \<noteq> Picking md key prepared used)
    \<Longrightarrow> (\<And>md key prepared. st \<noteq> Committing md key prepared None) \<Longrightarrow> creator_ok B j st"
  by (simp add: creator_ok_def)

lemma scanned_octets:
  assumes "record_contract P ns recs" "used_octets P ns w = (Inr used, w')" "c \<in> addressed (recs (daemon w))" "octet_of c = Some oc"
  shows "oc \<in> set used"
proof -
  obtain cs d where l: "containers_list P ns [] (daemon w) = (Inr cs, d)" and u: "used = label_octets cs"
    using assms(2) by (auto simp: used_octets_def call_def rpc_call_def bind_def label_octets_def split: prod.splits sum.splits)
  have "c \<in> set cs" using record_contractD(1) [OF assms(1) l] assms(3) by (auto simp: addressed_def)
  with u assms(4) show ?thesis by (auto simp: label_octets_member octet_of_def bind_eq_Some_conv)
qed

lemma advance_ok:
  assumes "record_contract P ns recs" "chooses P" "advance P ns j s w = (st, w')" "creator_ok (addressed (recs (daemon w))) j s"
    and "\<And>md key prepared bc. s \<noteq> Committing md key prepared bc"
  shows "creator_ok (addressed (recs (daemon w'))) j st"
proof -
  have "creator_ok (addressed (recs (daemon w))) j st"
  proof (cases s)
    case (Preparing md)
    with stage_cases [OF assms(3) [unfolded Preparing advance.simps]] show ?thesis
      by (auto simp: creator_ok_def split: prod.splits if_splits)
  next
    case (Scanning md key prepared)
    with stage_cases [OF assms(3) [unfolded Scanning advance.simps]] scanned_octets [OF assms(1)] show ?thesis
      by (auto simp: creator_ok_def)
  next
    case (Picking md key prepared used)
    have "oc \<notin> set used" if "pick_free_octet P used w = (Inr oc, w')" for oc
      using pick_free_octet_cases [OF assms(2), of used w] that by (simp add: set_free_octets)
    with stage_cases [OF assms(3) [unfolded Picking advance.simps]] assms(4) Picking show ?thesis
      by (fastforce simp: creator_ok_def)
  next
    case (Binding md key prepared ip)
    with stage_cases [OF assms(3) [unfolded Binding advance.simps]] assms(4) show ?thesis
      by (auto simp: creator_ok_def)
  qed (use assms(3,5) in \<open>auto simp: creator_ok_def dest!: stage_cases\<close>)
  then show ?thesis
    by (rule creator_ok_fewer) (rule addressed_mono [OF advance_shrinks [OF assms(1,3,5)]])
qed

lemma advance_holds: "advance P ns j s w = (st, w') \<Longrightarrow> holds st \<Longrightarrow> holds s \<or> awaits_lock s"
  by (cases s) (auto dest!: stage_cases split: prod.splits if_splits)

lemma commit_adds:
  assumes "record_contract P ns recs"
  shows "recs (daemon (snd (commit_record P ns name cid m prepared w))) \<subseteq> insert m (recs (daemon w))"
proof -
  obtain q d where q: "containers_create P ns m (daemon w) = (q, d)" by fastforce
  have d: "recs d \<subseteq> insert m (recs (daemon w))" using record_contractD(2) [OF assms, of m "daemon w"] q by simp
  obtain q' d' where r: "snapshots_remove P ns DEFAULT_SNAPSHOTTER (cm_snapshot_key m) d = (q', d')" by fastforce
  have "recs d' \<subseteq> recs d" using rpc_keepsD [OF record_contractD(8) [OF assms] r] by blast
  with q r d show ?thesis
    by (cases q) (auto simp: commit_record_def call_raw_def rpc_call_def Let_def)
qed

text \<open>The record of a creation is in bridge mode only when the creation has an address, which it carries.\<close>

lemma record_mode:
  "map_of (cm_labels (container_record P ns c name img key config opts bc)) NETWORK_MODE_LABEL = Some (label_value (co_network opts))"
  "octet_of (container_record P ns c name img key config opts (Some (ip, ports))) = parse_octet ip"
  by (simp_all add: container_record_def octet_of_def Let_def container_labels_lookup del: map_of_eq_Some_iff)

lemma label_value_bridge: "label_value m = label_value Bridge \<longleftrightarrow> m = Bridge"
  by (cases m) auto

lemma commit_distinct:
  assumes "record_contract P ns recs" "distinct_addresses (recs (daemon w))"
    and "creator_ok (addressed (recs (daemon w))) j (Committing md key prepared bc)"
    and "commit_job P ns j md key prepared bc w = (r, w')"
  shows "distinct_addresses (recs (daemon w'))"
    and "bc = None \<Longrightarrow> addressed (recs (daemon w')) \<subseteq> addressed (recs (daemon w))"
proof -
  let ?m = "container_record P ns (as_str (jb_id j)) (jb_name j) (jb_image j) key (md_config md) (jb_opts j) bc"
  have sub: "recs (daemon w') \<subseteq> insert ?m (recs (daemon w))"
    using commit_adds [OF assms(1), of "jb_name j" "jb_id j" ?m prepared w] assms(4) by simp
  have none: "bc = None \<Longrightarrow> addressed (recs (daemon w')) \<subseteq> addressed (recs (daemon w))"
    using sub assms(3) by (auto simp: addressed_def record_mode creator_ok_def label_value_bridge simp del: map_of_eq_Some_iff label_value.simps)
  then show "bc = None \<Longrightarrow> addressed (recs (daemon w')) \<subseteq> addressed (recs (daemon w))" .
  show "distinct_addresses (recs (daemon w'))"
  proof (cases bc)
    case None
    with none distinct_addresses_fewer [OF assms(2)] show ?thesis by blast
  next
    case (Some a)
    obtain ip ports where a: "a = (ip, ports)" by fastforce
    have m: "octet_of ?m = parse_octet ip" using Some a record_mode(2) by simp
    have fresh: "\<forall>c\<in>addressed (recs (daemon w)). octet_of c \<noteq> octet_of ?m" using assms(3) Some a m by (simp add: creator_ok_def)
    have "addressed (recs (daemon w')) \<subseteq> insert ?m (addressed (recs (daemon w)))" using sub by (auto simp: addressed_def)
    with distinct_addresses_one_more [OF assms(2) fresh] show ?thesis .
  qed
qed

lemma pool_inv_step:
  assumes "record_contract P ns recs" "chooses P" "pool_step P ns jobs recs s t" "pool_inv jobs recs s"
  shows "pool_inv jobs recs t"
  using assms(3)
proof (cases rule: pool_step.cases)
  case (elsewhere d)
  then have "creator_ok (addressed (recs (daemon (pl_world t)))) (jobs i) (pl_at t i)" for i
    using assms(4) creator_ok_fewer [of "addressed (recs (daemon (pl_world s)))"] by (simp add: pool_inv_def)
  moreover have "distinct_addresses (recs (daemon (pl_world t)))"
    using elsewhere assms(4) distinct_addresses_fewer [of "recs (daemon (pl_world s))"] by (simp add: pool_inv_def)
  ultimately show ?thesis using elsewhere(1) assms(4) by (simp add: pool_inv_def)
next
  case (creation i st w)
  let ?B = "addressed (recs (daemon (pl_world s)))" and ?B' = "addressed (recs (daemon w))"
  have ok: "creator_ok ?B (jobs k) (pl_at s k)" and lk: "holds (pl_at s k) \<Longrightarrow> pl_lock s = Some k" for k
    using assms(4) by (simp_all add: pool_inv_def)
  have dist: "distinct_addresses (recs (daemon (pl_world s)))" using assms(4) by (simp add: pool_inv_def)
  have lock: "k = i" if "holds st \<or> holds (pl_at s i)" "holds (pl_at s k)" for k
  proof (cases "holds (pl_at s i)")
    case True
    with lk that(2) show ?thesis by (metis option.inject)
  next
    case False
    then have "pl_lock s = None" using that(1) advance_holds [OF creation(3)] creation(2) by blast
    with lk [OF that(2)] show ?thesis by simp
  qed
  have "creator_ok ?B' (jobs i) st \<and> (\<forall>k. k \<noteq> i \<longrightarrow> creator_ok ?B' (jobs k) (pl_at s k)) \<and> distinct_addresses (recs (daemon w))"
  proof (cases "\<exists>md key prepared bc. pl_at s i = Committing md key prepared bc")
    case False
    then have sh: "recs (daemon w) \<subseteq> recs (daemon (pl_world s))" using advance_shrinks [OF assms(1) creation(3)] by blast
    then show ?thesis
      using advance_ok [OF assms(1,2) creation(3) ok] False creator_ok_fewer [OF ok addressed_mono [OF sh]]
        distinct_addresses_fewer [OF dist addressed_mono [OF sh]] by blast
  next
    case True
    then obtain md key prepared bc where at: "pl_at s i = Committing md key prepared bc" by blast
    from creation(3) [unfolded at] obtain r where r: "commit_job P ns (jobs i) md key prepared bc (pl_world s) = (r, w)" "st = Returned r"
      by (auto split: prod.splits)
    note c = commit_distinct [OF assms(1) dist ok [of i, unfolded at] r(1)]
    have "creator_ok ?B' (jobs k) (pl_at s k)" if "k \<noteq> i" for k
    proof (cases bc)
      case None
      then show ?thesis using c(2) creator_ok_fewer [OF ok] by blast
    next
      case (Some a)
      then have "\<not> holds (pl_at s k)" using lock [of k] that at by auto
      then show ?thesis using ok [of k] by (cases "pl_at s k") (auto simp: creator_ok_def split: option.splits)
    qed
    with c(1) r(2) show ?thesis by (simp add: creator_ok_def)
  qed
  moreover have "holds (if k = i then st else pl_at s k) \<Longrightarrow> (if holds st then Some i else if holds (pl_at s i) then None else pl_lock s) = Some k" for k
  proof (cases "k = i")
    case False
    assume "holds (if k = i then st else pl_at s k)"
    with False have h: "holds (pl_at s k)" by simp
    with False lock have "\<not> holds st" "\<not> holds (pl_at s i)" by blast+
    with lk [OF h] show ?thesis by simp
  qed simp
  ultimately show ?thesis using creation(1) by (simp add: pool_inv_def)
qed

lemma pool_inv_reach:
  assumes "record_contract P ns recs" "chooses P"
  shows "pool_reach P ns jobs recs s \<Longrightarrow> pool_inv jobs recs s"
proof (induction rule: pool_reach.induct)
  case (start w)
  then show ?case by (simp add: pool_inv_def creator_ok_def)
next
  case (step s t)
  with pool_inv_step [OF assms] show ?case by blast
qed

text \<open>One creation can run to its end while the others wait.\<close>

lemma pool_alone_steps:
  assumes "pool_reach P ns jobs recs s" "pl_lock s = None" "\<not> holds (pl_at s i)"
  shows "\<exists>t. pool_reach P ns jobs recs t \<and> (pl_at t i, pl_world t) = ((\<lambda>(st, w). advance P ns (jobs i) st w) ^^ n) (pl_at s i, pl_world s)
    \<and> (\<forall>k. k \<noteq> i \<longrightarrow> pl_at t k = pl_at s k) \<and> pl_lock t = (if holds (pl_at t i) then Some i else None)"
proof (induction n)
  case 0
  with assms show ?case by auto
next
  case (Suc n)
  then obtain t where t: "pool_reach P ns jobs recs t" "\<forall>k. k \<noteq> i \<longrightarrow> pl_at t k = pl_at s k" "pl_lock t = (if holds (pl_at t i) then Some i else None)"
    and n: "(pl_at t i, pl_world t) = ((\<lambda>(st, w). advance P ns (jobs i) st w) ^^ n) (pl_at s i, pl_world s)" by blast
  obtain st w where a: "advance P ns (jobs i) (pl_at t i) (pl_world t) = (st, w)" by fastforce
  have "awaits_lock (pl_at t i) \<longrightarrow> pl_lock t = None" using t(3) by (cases "pl_at t i") auto
  note u = pool_reach.step [OF t(1) pool_step.creation [where s = t and i = i and jobs = jobs, OF this a]]
  have "(st, w) = ((\<lambda>(st, w). advance P ns (jobs i) st w) ^^ Suc n) (pl_at s i, pl_world s)" using a by (simp flip: n)
  moreover have "(if holds st then Some i else if holds (pl_at t i) then None else pl_lock t) = (if holds st then Some i else None)"
    using t(3) by simp
  ultimately show ?case using u t(2) by (intro exI [of _ "\<lparr>pl_world = w, pl_lock = _, pl_at = (pl_at t)(i := st)\<rparr>"] conjI) simp_all
qed

lemma pool_alone:
  assumes "pool_reach P ns jobs recs s" "pl_lock s = None" "pl_at s i = Looking"
  obtains t r where "pool_reach P ns jobs recs t" "pl_at t i = Returned r" "\<forall>k. k \<noteq> i \<longrightarrow> pl_at t k = pl_at s k" "pl_lock t = None"
    "create_container_with_id P ns (jb_id (jobs i)) (jb_name (jobs i)) (jb_image (jobs i)) (jb_opts (jobs i)) (pl_world s) = (r, pl_world t)"
proof -
  obtain r w where c: "create_container_with_id P ns (jb_id (jobs i)) (jb_name (jobs i)) (jb_image (jobs i)) (jb_opts (jobs i)) (pl_world s) = (r, w)"
    by fastforce
  obtain t where t: "pool_reach P ns jobs recs t" "\<forall>k. k \<noteq> i \<longrightarrow> pl_at t k = pl_at s k" "pl_lock t = (if holds (pl_at t i) then Some i else None)"
    and n: "(pl_at t i, pl_world t) = ((\<lambda>(st, w). advance P ns (jobs i) st w) ^^ 7) (pl_at s i, pl_world s)"
    using pool_alone_steps [OF assms(1,2), of i 7] assms(3) by auto
  have "(pl_at t i, pl_world t) = (Returned r, w)" unfolding n assms(3) using creator_alone [of Looking 7 P ns "jobs i" "pl_world s"] c by simp
  with t c show ?thesis by (intro that [of t r]) auto
qed

section \<open>The reference daemon\<close>

definition rd_records :: "string \<Rightarrow> rd \<Rightarrow> container_msg set" where
  "rd_records ns d = snd ` {e \<in> set (rd_containers d). rd_in_ns ns (fst e)}"

lemma in_rd_records: "(k, c) \<in> set (rd_containers d) \<Longrightarrow> rd_in_ns ns k \<Longrightarrow> c \<in> rd_records ns d"
  by (force simp: rd_records_def)

lemma co_network_default: "co_network default_opts = Bridge"
  by (simp add: default_opts_def)

lemma rd_record_contract: "record_contract rd_platform ns (rd_records ns)"
  unfolding record_contract_def
  by (auto simp: rd_records_def rd_calls rd_err_def rd_matches_def rpc_keeps_def split: option.split list.split)

lemma rd_chooses: "chooses rd_platform"
  by (simp add: chooses_def rd_platform_def split: list.split)

text \<open>A daemon that runs one container in bridge mode already, and the creations of others.\<close>

definition first_record :: container_msg where
  "first_record = \<lparr>cm_id = ''a'', cm_image = ''nginx'', cm_runtime = None, cm_spec = None, cm_snapshotter = ''overlayfs'',
     cm_snapshot_key = ''a-snapshot'', cm_labels = [(NETWORK_MODE_LABEL, label_value Bridge), (BRIDGE_IP_LABEL, bridge_ip 2)]\<rparr>"

definition busy_daemon :: rd where
  "busy_daemon = web_daemon\<lparr>rd_containers := [(''default/a'', first_record)]\<rparr>"

definition rd_jobs :: "nat \<Rightarrow> job" where
  "rd_jobs i = \<lparr>jb_id = ContainerId (''c'' @ show_nat i), jb_name = ''web'' @ show_nat i, jb_image = ''nginx'', jb_opts = default_opts\<rparr>"

lemma rd_jobs_0: "rd_jobs 0 = \<lparr>jb_id = ContainerId ''c0'', jb_name = ''web0'', jb_image = ''nginx'', jb_opts = default_opts\<rparr>"
proof -
  have "show_nat 0 = ''0''" by code_simp
  then show ?thesis by (simp add: rd_jobs_def)
qed

lemma first_record_labels:
  "map_of (cm_labels first_record) NETWORK_MODE_LABEL = Some (label_value Bridge)" "octet_of first_record = Some 2"
  by (simp_all add: first_record_def octet_of_def)

lemmas busy = busy_daemon_def web_daemon_def rd_world_def rd_init_def rd_err_def rpc_call_def call_def rd_calls

lemma busy_creation:
  obtains w oc ports img key config where
    "create_container_with_id rd_platform ''default'' (ContainerId ''c0'') ''web0'' ''nginx'' default_opts (rd_world busy_daemon)
       = (Inr (ContainerId ''c0''), w)"
    "rd_containers (daemon w) = [(''default/c0'', container_record rd_platform ''default'' ''c0'' ''web0'' img key config default_opts
       (Some (bridge_ip oc, ports))), (''default/a'', first_record)]"
proof -
  let ?md = "\<lparr>md_chain_id = ''sha256:a'', md_config = \<lparr>ig_config = None, ig_diff_ids = [''sha256:a'']\<rparr>, md_raw_config = ''c''\<rparr>"
  let ?w1 = "store_image_metadata ''sha256:0'' ?md (rd_world busy_daemon)"
  have "\<not> rd_matches [name_filter ''web0''] first_record" by code_simp
  then have l: "create_lookup rd_platform ''default'' ''web0'' ''nginx'' (rd_world busy_daemon) = (Inr ?md, ?w1)"
    by (simp add: busy create_lookup_def get_image_def get_image_metadata_def lookup_image_metadata_def fetch_image_metadata_def
        read_content_def parse_error_def config_digest_of_def json_get_def json_digest_def json_as_str_def compute_chain_id_def bind_def)
  obtain w2 where p: "prepare_rootfs rd_platform ''default'' ''c0'' ''web0'' (md_chain_id ?md) default_opts ?w1 = (Inr (''c0-snapshot'', True), w2)"
    and w2: "rd_containers (daemon w2) = rd_containers busy_daemon"
    by (simp add: busy prepare_rootfs_def default_opts_def snapshot_key_for_def store_image_metadata_def bind_def Let_def)
  have cs: "containers_list rd_platform ''default'' [] (daemon w2) = (Inr [first_record], daemon w2)"
    by (simp add: w2 busy rd_in_ns_def rd_matches_def)
  have "3 \<in> set (free_octets (label_octets [first_record]))"
    using first_record_labels(2) by (auto simp: set_free_octets label_octets_member octet_of_def)
  then obtain oc ocs where f: "free_octets (label_octets [first_record]) = oc # ocs" by (cases "free_octets (label_octets [first_record])") auto
  obtain ports w3 where b: "bridge_setup rd_platform ''default'' default_opts w2 = (Inr (Some (bridge_ip oc, ports)), w3)"
    and w3: "rd_containers (daemon w3) = rd_containers busy_daemon"
    by (simp add: bridge_setup_def default_opts_def alloc_bridge_ip_listed [OF cs] pick_free_octet_def pick_free_port_def f rd_calls
        with_daemon_def bind_def w2)
  have v: "validate_identifier ''web0'' = Inr ()" by code_simp
  let ?m = "container_record rd_platform ''default'' ''c0'' ''web0'' ''nginx'' ''c0-snapshot'' \<lparr>ig_config = None, ig_diff_ids = [''sha256:a'']\<rparr> default_opts (Some (bridge_ip oc, ports))"
  have m: "cm_id ?m = ''c0''" by (simp add: container_record_def Let_def)
  have "commit_record rd_platform ''default'' ''web0'' (ContainerId ''c0'') ?m True w3
      = (Inr (ContainerId ''c0''), w3\<lparr>daemon := (daemon w3)\<lparr>rd_containers := (''default/c0'', ?m) # rd_containers (daemon w3)\<rparr>\<rparr>)"
    using w3 by (simp add: commit_record_def call_raw_def busy m rd_key_def)
  then have "create_container_with_id rd_platform ''default'' (ContainerId ''c0'') ''web0'' ''nginx'' default_opts (rd_world busy_daemon)
      = (Inr (ContainerId ''c0''), w3\<lparr>daemon := (daemon w3)\<lparr>rd_containers := (''default/c0'', ?m) # rd_containers (daemon w3)\<rparr>\<rparr>)"
    using l p b by (simp add: create_stages [OF v] bind_def)
  then show ?thesis by (rule that) (simp add: w3 busy_daemon_def)
qed

section \<open>Properties\<close>



end
