(* ===== verification/Connect.thy ===== *)
theory Connect
  imports Client_State "HOL-Library.List_Lexorder" "HOL-Library.Char_ord"
begin

text \<open>
  Finding and probing the socket of the daemon: src/src/connect.rs.

  What the functions ask of the machine are arguments: the target the crate is compiled for, the home
  directory, the entries of the Colima directory in the order the file system lists them (the full
  path of each, its name as text, whether it is a directory and whether it holds a socket), whether a
  path exists, and how a first connection ends.
\<close>

section \<open>Model\<close>

datatype target = Windows | MacOS | Other_Unix

record colima_entry =
  ce_path :: string
  ce_name :: string
  ce_is_dir :: bool
  ce_has_sock :: bool

definition colima_candidates :: "colima_entry list \<Rightarrow> (string \<times> string) list" where
  "colima_candidates entries =
     map (\<lambda>e. (ce_name e, path_join (ce_path e) ''containerd.sock'')) (filter ce_has_sock (filter ce_is_dir entries))"

fun pick_colima :: "string option \<Rightarrow> (string \<times> string) list \<Rightarrow> string option" where
  "pick_colima default_sock [] = default_sock"
| "pick_colima default_sock ((name, sock) # rest) =
     (if name = ''default'' then pick_colima (Some sock) rest else Some sock)"

text \<open>The listing is \<open>None\<close> when the directory cannot be read.\<close>

definition find_colima_socket_in :: "colima_entry list option \<Rightarrow> string option" where
  "find_colima_socket_in listing =
     Option.bind listing (\<lambda>entries. pick_colima None (sort_key fst (colima_candidates entries)))"

definition find_colima_socket :: "string option \<Rightarrow> (string \<Rightarrow> colima_entry list option) \<Rightarrow> string option" where
  "find_colima_socket home read_dir =
     Option.bind home (\<lambda>h. find_colima_socket_in (read_dir (path_join h ''.colima'')))"

definition default_socket_path :: "target \<Rightarrow> string option \<Rightarrow> (string \<Rightarrow> colima_entry list option) \<Rightarrow> string" where
  "default_socket_path t home read_dir =
     (case t of
        MacOS \<Rightarrow> (case find_colima_socket home read_dir of Some path \<Rightarrow> path | None \<Rightarrow> ''/var/run/containerd/containerd.sock'')
      | _ \<Rightarrow> ''/run/containerd/containerd.sock'')"

definition resolve_socket_path_with ::
  "target \<Rightarrow> string option \<Rightarrow> (string \<Rightarrow> colima_entry list option) \<Rightarrow> string option \<Rightarrow> string option \<Rightarrow> string" where
  "resolve_socket_path_with t home read_dir explicit_path env_val =
     (case explicit_path of
        Some path \<Rightarrow> path
      | None \<Rightarrow>
        (case env_val of
           Some val \<Rightarrow> if val \<noteq> [] then val else default_socket_path t home read_dir
         | None \<Rightarrow> default_socket_path t home read_dir))"

definition SOCKET_ENV_VAR :: string where "SOCKET_ENV_VAR = ''CONTAINERD_SOCKET''"

definition resolve_socket_path ::
  "target \<Rightarrow> string option \<Rightarrow> (string \<Rightarrow> colima_entry list option) \<Rightarrow> (string \<Rightarrow> string option) \<Rightarrow> string option \<Rightarrow> string" where
  "resolve_socket_path t home read_dir env_var explicit_path =
     resolve_socket_path_with t home read_dir explicit_path (env_var SOCKET_ENV_VAR)"

text \<open>\<open>endpoint\<close> is what the transport library makes of the fixed address, and the connection it
  then sets up when it is first used.\<close>

definition connect_unix ::
  "(string \<Rightarrow> bool) \<Rightarrow> (string \<Rightarrow> io_kind + unit) \<Rightarrow> string + 'd \<Rightarrow> fs \<Rightarrow> string \<Rightarrow> (string \<times> 'd world) result" where
  "connect_unix path_exists unix_connect endpoint fl path =
     (if \<not> path_exists path then Inl (SocketNotFound path)
      else (case unix_connect path of
              Inl Kind_ConnectionRefused \<Rightarrow> Inl (ConnectionRefused path)
            | Inl e \<Rightarrow> Inl (Io ''connect socket'' e)
            | Inr _ \<Rightarrow> (case endpoint of Inl e \<Rightarrow> Inl (Transport e) | Inr d \<Rightarrow> Inr (from_parts d fl))))"

definition connect ::
  "target \<Rightarrow> string option \<Rightarrow> (string \<Rightarrow> colima_entry list option) \<Rightarrow> (string \<Rightarrow> string option) \<Rightarrow> (string \<Rightarrow> bool)
    \<Rightarrow> (string \<Rightarrow> io_kind + unit) \<Rightarrow> string + 'd \<Rightarrow> fs \<Rightarrow> string option \<Rightarrow> (string \<times> 'd world) result" where
  "connect t home read_dir env_var path_exists unix_connect endpoint fl explicit_path =
     (if t = Windows
      then Inl (InvalidArgument ''containerd-manager requires a Unix-socket-capable target. On Windows, build and run inside WSL2.'')
      else connect_unix path_exists unix_connect endpoint fl
             (resolve_socket_path t home read_dir env_var explicit_path))"

section \<open>The choice of a profile\<close>

lemma pick_colima_default: "list_all (\<lambda>(n, s). n = ''default'') cs \<Longrightarrow> pick_colima d cs = (if cs = [] then d else Some (snd (last cs)))"
  by (induction d cs rule: pick_colima.induct) auto

text \<open>The first candidate with another name than \<open>default\<close> in a sorted list is the least one.\<close>

lemma pick_colima_least:
  assumes "sorted (map fst cs)" "pick_colima d cs = Some s" "\<exists>c \<in> set cs. fst c \<noteq> ''default''"
  shows "\<exists>n. (n, s) \<in> set cs \<and> n \<noteq> ''default'' \<and> (\<forall>c \<in> set cs. fst c \<noteq> ''default'' \<longrightarrow> n \<le> fst c)"
  using assms by (induction d cs rule: pick_colima.induct) (auto split: if_splits)

lemma pick_colima_some: "cs \<noteq> [] \<Longrightarrow> \<exists>s. pick_colima d cs = Some s"
proof (induction d cs rule: pick_colima.induct)
  case (2 d n s rest)
  then show ?case by (cases rest) auto
qed simp

definition preferred :: "(string \<times> string) set \<Rightarrow> string \<Rightarrow> bool" where
  "preferred cs sock \<longleftrightarrow>
     (\<exists>n. (n, sock) \<in> cs \<and> (\<forall>c \<in> cs. fst c \<noteq> ''default'' \<longrightarrow> n \<noteq> ''default'' \<and> n \<le> fst c))"

lemma pick_colima_preferred:
  assumes "sorted (map fst cs)" "pick_colima None cs = Some s"
  shows "preferred (set cs) s"
proof (cases "\<exists>c \<in> set cs. fst c \<noteq> ''default''")
  case True
  with pick_colima_least [OF assms] show ?thesis by (auto simp: preferred_def)
next
  case False
  then have "list_all (\<lambda>(n, s). n = ''default'') cs" by (auto simp: list_all_iff)
  with assms(2) have "cs \<noteq> []" "s = snd (last cs)" by (auto simp: pick_colima_default split: if_splits)
  then have "(fst (last cs), s) \<in> set cs" by simp
  with False show ?thesis by (auto simp: preferred_def)
qed

lemma preferred_unique:
  assumes "inj_on fst cs" "preferred cs s" "preferred cs t"
  shows "s = t"
proof -
  obtain n m where n: "(n, s) \<in> cs" "(m, t) \<in> cs"
    and le: "\<forall>c \<in> cs. fst c \<noteq> ''default'' \<longrightarrow> n \<noteq> ''default'' \<and> n \<le> fst c" "\<forall>c \<in> cs. fst c \<noteq> ''default'' \<longrightarrow> m \<noteq> ''default'' \<and> m \<le> fst c"
    using assms(2,3) unfolding preferred_def by blast
  have "n = m"
  proof (cases "n = ''default''")
    case True
    with le(1) n(2) show ?thesis by fastforce
  next
    case False
    with le n have "m \<noteq> ''default''" "m \<le> n" by fastforce+
    with le(1) n(2) show ?thesis by (fastforce intro: order_antisym)
  qed
  with n inj_onD [OF assms(1), of "(n, s)" "(m, t)"] show ?thesis by simp
qed

text \<open>
  C40: The discovery of a Colima socket does not depend on the order in which the file system lists
  the profiles: with profiles of different names, the socket found is the one of the least profile
  name other than \<open>default\<close>, and that of \<open>default\<close> exactly when it is the only profile with a socket.
  Nothing is found exactly when no profile has one.
\<close>

theorem find_colima_socket_deterministic:
  assumes "inj_on fst (set (colima_candidates entries))"
  shows "find_colima_socket_in (Some entries) = Some s \<longleftrightarrow> preferred (set (colima_candidates entries)) s"
proof -
  let ?cs = "sort_key fst (colima_candidates entries)"
  have s: "sorted (map fst ?cs)" "set ?cs = set (colima_candidates entries)" by simp_all
  show ?thesis
  proof
    assume "find_colima_socket_in (Some entries) = Some s"
    with pick_colima_preferred [OF s(1)] s(2) show "preferred (set (colima_candidates entries)) s"
      by (simp add: find_colima_socket_in_def)
  next
    assume p: "preferred (set (colima_candidates entries)) s"
    then have "?cs \<noteq> []" using s(2) unfolding preferred_def by fastforce
    then obtain t where t: "pick_colima None ?cs = Some t" using pick_colima_some by blast
    with pick_colima_preferred [OF s(1)] s(2) have "preferred (set (colima_candidates entries)) t" by simp
    with preferred_unique [OF assms this p] t show "find_colima_socket_in (Some entries) = Some s"
      by (simp add: find_colima_socket_in_def)
  qed
qed

definition colima_example :: "colima_entry list" where
  "colima_example =
     [\<lparr>ce_path = ''/h/.colima/default'', ce_name = ''default'', ce_is_dir = True, ce_has_sock = True\<rparr>,
      \<lparr>ce_path = ''/h/.colima/work'', ce_name = ''work'', ce_is_dir = True, ce_has_sock = True\<rparr>,
      \<lparr>ce_path = ''/h/.colima/dev'', ce_name = ''dev'', ce_is_dir = True, ce_has_sock = True\<rparr>,
      \<lparr>ce_path = ''/h/.colima/a'', ce_name = ''a'', ce_is_dir = True, ce_has_sock = False\<rparr>]"

theorem find_colima_socket_deterministic_witness:
  "find_colima_socket_in (Some colima_example) = Some ''/h/.colima/dev/containerd.sock''"
proof -
  have c: "colima_candidates colima_example =
      [(''default'', ''/h/.colima/default/containerd.sock''), (''work'', ''/h/.colima/work/containerd.sock''),
       (''dev'', ''/h/.colima/dev/containerd.sock'')]" by code_simp
  have d: "''dev'' \<le> ''work''" by code_simp
  have "preferred (set (colima_candidates colima_example)) ''/h/.colima/dev/containerd.sock''"
    unfolding preferred_def c using d by (intro exI [of _ "''dev''"]) auto
  then show ?thesis
    by (subst find_colima_socket_deterministic) (simp_all add: c)
qed

section \<open>Connecting\<close>

text \<open>A client comes back only for a socket that exists and accepted a connection, with empty state
  and the default namespace.\<close>

lemma connect_ok:
  assumes "connect t home read_dir env_var path_exists unix_connect endpoint fl explicit_path = Inr (ns, w)"
  shows "t \<noteq> Windows \<and> ns = ''default''
    \<and> (let path = resolve_socket_path t home read_dir env_var explicit_path in path_exists path \<and> unix_connect path = Inr ())
    \<and> managed_handles w = [] \<and> managed_tailers w = Map.empty \<and> task_start_times w = Map.empty"
  using assms
  by (auto simp: connect_def connect_unix_def from_parts_def Let_def split: if_splits sum.splits io_kind.splits)

lemma connect_errors:
  assumes "connect t home read_dir env_var path_exists unix_connect endpoint fl explicit_path = Inl e" "t \<noteq> Windows"
  shows "let path = resolve_socket_path t home read_dir env_var explicit_path in
      e = SocketNotFound path \<and> \<not> path_exists path
    \<or> path_exists path \<and> (e = ConnectionRefused path \<and> unix_connect path = Inl Kind_ConnectionRefused
        \<or> (\<exists>k. e = Io ''connect socket'' k \<and> k \<noteq> Kind_ConnectionRefused \<and> unix_connect path = Inl k) \<or> (\<exists>m. e = Transport m \<and> endpoint = Inl m))"
  using assms
  by (auto simp: connect_def connect_unix_def Let_def split: if_splits sum.splits io_kind.splits)

end
