(* ===== verification/Spec2Isabelle.thy ===== *)
theory Spec2Isabelle
  imports Layers Concurrent_Create Connect
begin

text \<open>
  Verification of containerd-manager, a Rust library that manages containers, tasks, snapshots and
  images of a containerd daemon over gRPC, follows their logs and forwards ports.

  \<^bold>\<open>The program.\<close> A \<^verbatim>\<open>Client\<close> (src/src/client.rs) holds a connection, a namespace and four tables that
  its clones share: image metadata, start times of tasks, log tailers and managed port forwards. Its
  methods delegate to one module each: creation (container.rs, with bridge.rs for addresses and hook
  scripts), tasks (task.rs), inspection and listing (inspect.rs, list.rs), snapshots and clones
  (snapshot.rs, snapshot_util.rs, clone.rs), images (image.rs), commands in a container (exec.rs),
  waiting and health (readiness.rs), port forwards (port_forward.rs) and logs. The containerd shim
  writes the output of a container to two raw files; a tailer per container (log_tailer.rs) copies
  both into one rotated file of records, and logs.rs reads that file in bulk or follows it. connect.rs
  finds the socket of the daemon.

  \<^bold>\<open>How it is modelled.\<close> The daemon, the clock, random choices, the JSON and protobuf libraries and
  the file system are not part of the repository. Those that are called are the fields of the record
  \<open>platform\<close> (\<open>Messages\<close>), functions on an abstract daemon state \<open>'d\<close>; the file system is a small model
  with names, inodes, open handles and a list of faults to inject (\<open>Files\<close>). A \<open>world\<close> is the daemon
  state with the client tables and the files. An operation without loops is a function from a world
  to a result and a world (\<open>op\<close>), one that polls is a \<open>partial_function\<close> into an option (\<open>prog\<close>), where
  \<open>None\<close> is not returning; nothing uses fuel. Errors are values of the datatype \<open>error\<close>, with the source's
  constructors. Background tasks are step functions or loops over explicit lists of rounds, so that
  every interleaving is a list. Ports, octets, exit statuses and counters are words of the source's
  width; durations and instants are nanoseconds in \<open>nat\<close>, wall-clock time is \<open>int\<close>. Maps whose iteration
  order the source leaves open are association lists in insertion order.

  \<^bold>\<open>Assumptions\<close> about the daemon are predicates on a platform, always explicit in the theorem:
  \<open>clock_sleeps\<close> and \<open>clock_monotone\<close> (time passes while sleeping, no call turns it back),
  \<open>snapshot_contract\<close> (\<open>Container\<close>: what prepare, commit and remove do to the keys of the snapshotter),
  \<open>task_shows\<close> (\<open>Task\<close>: what inspection reports of a task), \<open>lifecycle_contract\<close> (\<open>Lifecycle\<close>: a call
  makes a container do the moves of its kind only), \<open>layer_contract\<close> (\<open>Layers\<close>: a writable layer goes
  only by a commit or removal of its key), \<open>record_contract\<close> (\<open>Concurrent_Create\<close>: a listing shows all
  records, only their creation adds one), and \<open>runtime_steady\<close> / \<open>runtime_neutral\<close> for the timers of the
  asynchronous runtime. \<open>Reference_Daemon\<close> is one daemon for which all of them hold; the witnesses
  compute on it, and no definition or property depends on it.

  \<^bold>\<open>The theories\<close>, each with its model first and its lemmas and properties after it:
  \<^item> \<open>Prelude\<close>: lists, options, decimal numbers, insertion into maps; shared automation.
  \<^item> \<open>Core_Types\<close>: error.rs, consts.rs, types.rs and the identifier check of util.rs. Exactly the
    identifier grammar is accepted.
  \<^item> \<open>Files\<close>: the file system.
  \<^item> \<open>Log_Codec\<close>: the record format of logs.rs: encoding, incremental decoding, resynchronisation. Round
    trip, and a malformed line costs only itself.
  \<^item> \<open>Log_Files\<close>: paths, rotation slots, preparation, clean-up, filtered reads of logs.rs.
  \<^item> \<open>Log_Tailer\<close>: log_tailer.rs. What a reader finds is the end of what the container wrote, across
    draining, line splitting and rotation; the tailer gives up after 50 failing rounds. The sink of
    records is the locale \<open>event_sink\<close>.
  \<^item> \<open>Log_Follower\<close>: the follower of logs.rs. It refines the bulk parser (locale \<open>incremental_decoder\<close>), and
    crosses a rotation; a record written during a poll is sent twice.
  \<^item> \<open>Log_Channel\<close>: the handle of a follower, with the bounded channel between its task and its reader. In
    any interleaving the reader gets the records in order and, reading on, all of them; a reader that
    leaves after some entries makes the task stop there.
  \<^item> \<open>Messages\<close>, \<open>World\<close>: the platform, worlds and operations, \<open>poll_until\<close> of util.rs. The locale
    \<open>sleeping_loop\<close> has the termination, outcome and invariant of a loop that sleeps between rounds and
    is interpreted for the three loops of the crate. \<open>keeps\<close>, \<open>returns\<close> and \<open>remote_only\<close> are properties
    of operations that follow their composition (\<open>keeps_intros\<close>, \<open>returns_intros\<close>, \<open>remote_intros\<close>).
  \<^item> \<open>Client_State\<close>: the tables of client.rs, keyed by namespace and container (locale \<open>client_table\<close>,
    interpreted for start times and tailers): containers do not see each other's entries.
  \<^item> \<open>Port_Forward\<close>: port labels, starting a forward, the accept loop.
  \<^item> \<open>Inspect\<close>: inspect.rs and list.rs; when the two agree on a task.
  \<^item> \<open>Bridge\<close>: bridge.rs: free addresses, names of interfaces, hook scripts.
  \<^item> \<open>Container\<close>: container.rs: options, the OCI specification, image metadata, creation with its
    rollback. A created record reads back; a failed creation leaves no snapshot, except after a failed
    bridge set-up.
  \<^item> \<open>Concurrent_Create\<close>: creations in parallel, each cut into stages, with the allocation lock of
    bridge.rs as a step relation over any number of them. A creation alone does what \<open>Container\<close> says;
    in any interleaving two containers never share a bridge address.
  \<^item> \<open>Task\<close>: task.rs and the start and delete methods of client.rs.
  \<^item> \<open>Snapshot\<close>, \<open>Clone\<close>, \<open>Image\<close>, \<open>Exec\<close>: the modules of these names. Failed restores and clones leave no
    snapshot; snapshots of others are not touched; a command's output is captured up to the cap.
  \<^item> \<open>Utf8\<close>: the lossy reading of bytes as text that exec.rs offers for the output of a command:
    exactly what \<^verbatim>\<open>from_utf8\<close> accepts stays as it is, anything else becomes text.
  \<^item> \<open>Readiness\<close>: readiness.rs: health checks, strategies, the waiting loop, the probe.
  \<^item> \<open>Exit_Watcher\<close>: the task of client.rs that ends a log stream.
  \<^item> \<open>Client_Api\<close>: the other methods of client.rs; a client's namespace always fits a request header.
  \<^item> \<open>Session\<close>, \<open>Lifecycle\<close>: the composition. Requests to a client in sequence: every session ends,
    follows the abstract life cycle of each container (the moves \<open>move\<close> of \<open>Lifecycle\<close>), and leaves the
    containers alone that it is not about.
  \<^item> \<open>Layers\<close>: what a session does to the writable layers of containers: a layer that no request of the
    session may replace is the one it was.
  \<^item> \<open>Connect\<close>: connect.rs: which socket is chosen, whatever the order of the directory, and how
    connecting fails.

  \<^bold>\<open>Not modelled:\<close> tracing spans and log lines, which have no effect on results; the copying of bytes between
  two sockets of a port forward and the transport under a gRPC call, which are libraries; the
  offending string that the identifier and namespace checks print with \<^verbatim>\<open>Debug\<close> in their message; the
  failure branches of the OCI builders, all of whose required fields the code sets; the poisoning of a
  mutex by a panic; a future
  that is dropped between two calls other than by the timeouts of readiness.rs; the examples and
  integration tests, which use the library and hold none of its logic. A change of the daemon by other
  clients between two calls is covered by the platform being arbitrary, as far as a property's
  assumptions allow it.
\<close>

end
